theory Spec2Isabelle
  imports Main "HOL-Library.AList"
begin

section \<open>JavaScript values\<close>

text \<open>
  Request bodies, session transcripts and hook inputs have type \<^verbatim>\<open>any\<close> in the
  source: they are whatever \<^verbatim>\<open>JSON.parse\<close> or the host hands over. They are modelled
  as JSON trees extended with \<^verbatim>\<open>undefined\<close>. An object is an association list in
  property enumeration order; a property read takes the first binding of the key, and
  \<^verbatim>\<open>JSON.parse\<close> only produces objects whose keys are distinct. Numbers are the
  integers, strings are byte strings. The tree has no sharing (as after
  \<^verbatim>\<open>JSON.parse\<close>), so an in-place mutation of a turn is the functional update of
  the tree at that position.
\<close>

datatype json =
    JUndef
  | JNull
  | JBool bool
  | JNum int
  | JStr string
  | JArr "json list"
  | JObj "(string \<times> json) list"

text \<open>
  The one exception the code can raise by itself is \<^verbatim>\<open>TypeError\<close> (a property read
  on \<^verbatim>\<open>null\<close>/\<^verbatim>\<open>undefined\<close>, a call of something that is not a function).
  \<open>NotAnArray\<close> is not a JavaScript outcome: \<^verbatim>\<open>getDataArray\<close> is declared to return
  \<^verbatim>\<open>any[] | undefined\<close>, and the mutation utilities are only modelled on that declared
  type; a truthy value that is not an array is reported as \<open>NotAnArray\<close>.
\<close>

datatype error = TypeError | NotAnArray

fun truthy :: "json \<Rightarrow> bool" where
  "truthy JUndef = False"
| "truthy JNull = False"
| "truthy (JBool b) = b"
| "truthy (JNum n) = (n \<noteq> 0)"
| "truthy (JStr s) = (s \<noteq> [])"
| "truthy (JArr xs) = True"
| "truthy (JObj kvs) = True"

fun nullish :: "json \<Rightarrow> bool" where
  "nullish JUndef = True"
| "nullish JNull = True"
| "nullish v = False"

fun isArray :: "json \<Rightarrow> bool" where
  "isArray (JArr xs) = True"
| "isArray v = False"

fun isObject :: "json \<Rightarrow> bool" where
  "isObject (JObj kvs) = True"
| "isObject v = False"

text \<open>
  \<open>get v k\<close> is the property read \<^verbatim>\<open>v.k\<close> on a value that is neither
  \<^verbatim>\<open>null\<close> nor \<^verbatim>\<open>undefined\<close>: the bound value for an object that has the key,
  \<^verbatim>\<open>undefined\<close> otherwise (none of the property names the code reads is a built-in
  property of a string, number, boolean or array). \<open>readProp v k\<close> is the unguarded read,
  which throws on \<^verbatim>\<open>null\<close> and \<^verbatim>\<open>undefined\<close>; \<open>optProp v k\<close> is \<^verbatim>\<open>v?.k\<close>.
\<close>

fun get :: "json \<Rightarrow> string \<Rightarrow> json" where
  "get (JObj kvs) k = (case map_of kvs k of Some v \<Rightarrow> v | None \<Rightarrow> JUndef)"
| "get v k = JUndef"

definition readProp :: "json \<Rightarrow> string \<Rightarrow> error + json" where
  "readProp v k = (if nullish v then Inl TypeError else Inr (get v k))"

definition optProp :: "json \<Rightarrow> string \<Rightarrow> json" where
  "optProp v k = (if nullish v then JUndef else get v k)"

text \<open>\<^verbatim>\<open>a || b\<close> on values.\<close>

definition orElse :: "json \<Rightarrow> json \<Rightarrow> json" where
  "orElse a b = (if truthy a then a else b)"

text \<open>
  \<open>setProp v k x\<close> is the object literal \<^verbatim>\<open>{ ...v, k: x }\<close>, and also the assignment
  \<^verbatim>\<open>v.k = x\<close> on an object: an existing key keeps its place, a new key goes last.
  Spreading a value that is not an object contributes no property here (the code
  only spreads turns and parts it has just read a string-valued property from, which
  are objects).
\<close>

fun setProp :: "json \<Rightarrow> string \<Rightarrow> json \<Rightarrow> json" where
  "setProp (JObj kvs) k x = JObj (AList.update k x kvs)"
| "setProp v k x = JObj [(k, x)]"

subsection \<open>Strings\<close>

text \<open>
  \<^verbatim>\<open>String.prototype.toLowerCase\<close> on byte strings: the letters \<^verbatim>\<open>A\<close> to \<^verbatim>\<open>Z\<close> are
  folded, every other byte is kept. Tool names and call identifiers are ASCII.
\<close>

definition lowerChar :: "char \<Rightarrow> char" where
  "lowerChar c =
     (if 65 \<le> (of_char c :: nat) \<and> (of_char c :: nat) \<le> 90
      then char_of ((of_char c :: nat) + 32) else c)"

definition toLowerCase :: "string \<Rightarrow> string" where
  "toLowerCase s = map lowerChar s"

text \<open>
  \<open>callToLowerCase v\<close> is \<^verbatim>\<open>v.toLowerCase()\<close>: only a string has the method.
  \<open>optToLowerCase v\<close> is \<^verbatim>\<open>v?.toLowerCase()\<close>: \<^verbatim>\<open>undefined\<close> for a nullish
  receiver, and still a \<^verbatim>\<open>TypeError\<close> for a number, boolean, array or object.
\<close>

fun callToLowerCase :: "json \<Rightarrow> error + string" where
  "callToLowerCase (JStr s) = Inr (toLowerCase s)"
| "callToLowerCase v = Inl TypeError"

fun optToLowerCase :: "json \<Rightarrow> error + json" where
  "optToLowerCase JUndef = Inr JUndef"
| "optToLowerCase JNull = Inr JUndef"
| "optToLowerCase (JStr s) = Inr (JStr (toLowerCase s))"
| "optToLowerCase v = Inl TypeError"

definition digitChar :: "nat \<Rightarrow> char" where
  "digitChar d = ''0123456789abcdef'' ! d"

function showNat :: "nat \<Rightarrow> string" where
  "showNat n = (if n < 10 then [digitChar n] else showNat (n div 10) @ [digitChar (n mod 10)])"
  by pat_completeness auto
termination
  by (relation "measure id") auto

declare showNat.simps [simp del]

definition showInt :: "int \<Rightarrow> string" where
  "showInt i = (if i < 0 then CHR ''-'' # showNat (nat (- i)) else showNat (nat i))"

text \<open>
  A value interpolated into a template literal: the code interpolates a lower-cased
  function name, which is a string or \<^verbatim>\<open>undefined\<close>.
\<close>

fun interpolate :: "json \<Rightarrow> string" where
  "interpolate (JStr s) = s"
| "interpolate v = ''undefined''"

subsection \<open>\<^verbatim>\<open>JSON.stringify\<close> and \<^verbatim>\<open>Array.prototype.join\<close>\<close>

definition escapeChar :: "char \<Rightarrow> string" where
  "escapeChar c =
     (if c = CHR 0x22 then [CHR 0x5C, CHR 0x22]
      else if c = CHR 0x5C then [CHR 0x5C, CHR 0x5C]
      else if c = CHR 0x08 then [CHR 0x5C, CHR ''b'']
      else if c = CHR 0x09 then [CHR 0x5C, CHR ''t'']
      else if c = CHR 0x0A then [CHR 0x5C, CHR ''n'']
      else if c = CHR 0x0C then [CHR 0x5C, CHR ''f'']
      else if c = CHR 0x0D then [CHR 0x5C, CHR ''r'']
      else if (of_char c :: nat) < 32
        then [CHR 0x5C, CHR ''u'', CHR ''0'', CHR ''0'',
              digitChar ((of_char c :: nat) div 16), digitChar ((of_char c :: nat) mod 16)]
      else [c])"

definition quote :: "string \<Rightarrow> string" where
  "quote s = CHR 0x22 # concat (map escapeChar s) @ [CHR 0x22]"

fun commas :: "string list \<Rightarrow> string" where
  "commas [] = []"
| "commas [s] = s"
| "commas (s # t # ss) = s @ CHR '','' # commas (t # ss)"

text \<open>
  \<open>serialize\<close> is the text of a value nested in an array or object: an
  \<^verbatim>\<open>undefined\<close> array element is written \<^verbatim>\<open>null\<close>, a property whose value is
  \<^verbatim>\<open>undefined\<close> is left out. At top level \<^verbatim>\<open>JSON.stringify(undefined)\<close> is
  \<^verbatim>\<open>undefined\<close>, not a string.
\<close>

fun serialize :: "json \<Rightarrow> string"
  and serializeItems :: "json list \<Rightarrow> string list"
  and serializeFields :: "(string \<times> json) list \<Rightarrow> string list"
  and serializeField :: "string \<times> json \<Rightarrow> string list"
where
  "serialize JUndef = ''null''"
| "serialize JNull = ''null''"
| "serialize (JBool b) = (if b then ''true'' else ''false'')"
| "serialize (JNum n) = showInt n"
| "serialize (JStr s) = quote s"
| "serialize (JArr xs) = ''['' @ commas (serializeItems xs) @ '']''"
| "serialize (JObj kvs) = ''{'' @ commas (serializeFields kvs) @ ''}''"
| "serializeItems [] = []"
| "serializeItems (x # xs) = serialize x # serializeItems xs"
| "serializeFields [] = []"
| "serializeFields (kv # kvs) = serializeField kv @ serializeFields kvs"
| "serializeField (k, v) = (if v = JUndef then [] else [quote k @ '':'' @ serialize v])"

definition JSON_stringify :: "json \<Rightarrow> json" where
  "JSON_stringify v = (if v = JUndef then JUndef else JStr (serialize v))"

text \<open>
  \<open>toStringJS\<close> is the conversion \<^verbatim>\<open>join\<close> applies to an element. An array converts
  by joining its own elements with a comma, an object to \<^verbatim>\<open>[object Object]\<close>; an
  object with an own \<^verbatim>\<open>toString\<close> property (which parsed data cannot make callable)
  has no primitive value, which is a \<^verbatim>\<open>TypeError\<close>. \<^verbatim>\<open>null\<close> and
  \<^verbatim>\<open>undefined\<close> elements join as the empty string.
\<close>

fun intercalate :: "string \<Rightarrow> string list \<Rightarrow> string" where
  "intercalate sep [] = []"
| "intercalate sep [s] = s"
| "intercalate sep (s # t # ss) = s @ sep @ intercalate sep (t # ss)"

fun toStringJS :: "json \<Rightarrow> error + string"
  and toStringItems :: "json list \<Rightarrow> error + string list"
where
  "toStringJS JUndef = Inr ''undefined''"
| "toStringJS JNull = Inr ''null''"
| "toStringJS (JBool b) = Inr (if b then ''true'' else ''false'')"
| "toStringJS (JNum n) = Inr (showInt n)"
| "toStringJS (JStr s) = Inr s"
| "toStringJS (JArr xs) =
     (case toStringItems xs of Inl e \<Rightarrow> Inl e | Inr ss \<Rightarrow> Inr (intercalate '','' ss))"
| "toStringJS (JObj kvs) =
     (if ''toString'' \<in> fst ` set kvs then Inl TypeError else Inr ''[object Object]'')"
| "toStringItems [] = Inr []"
| "toStringItems (x # xs) =
     (case (if nullish x then Inr [] else toStringJS x) of
        Inl e \<Rightarrow> Inl e
      | Inr s \<Rightarrow> (case toStringItems xs of Inl e \<Rightarrow> Inl e | Inr ss \<Rightarrow> Inr (s # ss)))"

definition join :: "json list \<Rightarrow> string \<Rightarrow> error + string" where
  "join xs sep = (case toStringItems xs of Inl e \<Rightarrow> Inl e | Inr ss \<Rightarrow> Inr (intercalate sep ss))"

text \<open>Sequencing of computations that may throw.\<close>

definition andThen :: "error + 'a \<Rightarrow> ('a \<Rightarrow> error + 'b) \<Rightarrow> error + 'b" where
  "andThen m f = (case m of Inl e \<Rightarrow> Inl e | Inr x \<Rightarrow> f x)"

text \<open>
  A \<^verbatim>\<open>for (const x of xs)\<close> loop whose body pushes the outputs found in \<open>x\<close>: the
  outputs of all elements in order, or the first exception.
\<close>

fun collect :: "('a \<Rightarrow> error + 'b list) \<Rightarrow> 'a list \<Rightarrow> error + 'b list" where
  "collect f [] = Inr []"
| "collect f (x # xs) =
     andThen (f x) (\<lambda>ys. andThen (collect f xs) (\<lambda>zs. Inr (ys @ zs)))"

section \<open>Plugin state (state.ts) and tool outputs (types.ts)\<close>

record ModelInfo =
  providerID :: json
  modelID :: json

text \<open>
  A JavaScript \<^verbatim>\<open>Map\<close> iterates in insertion order and \<^verbatim>\<open>set\<close> on a present key
  keeps the key's place: the maps of the state are association lists updated with
  \<open>AList.update\<close>. A \<^verbatim>\<open>Set\<close> is the list of its members in insertion order.
\<close>

record PluginState =
  model :: "(string \<times> ModelInfo) list"
  googleToolCallMapping :: "(string \<times> (string \<times> string) list) list"
  checkedSessions :: "string list"
  subagentSessions :: "string list"
  lastSeenSessionId :: "string option"

definition createPluginState :: PluginState where
  "createPluginState =
     \<lparr> model = [], googleToolCallMapping = [], checkedSessions = [],
       subagentSessions = [], lastSeenSessionId = None \<rparr>"

record ToolOutput =
  id_str :: string
  toolName :: json
  content :: json

section \<open>Format descriptors (fetch-wrapper/formats)\<close>

datatype format = OpenaiChat | OpenaiResponses | Gemini | Bedrock

fun name :: "format \<Rightarrow> string" where
  "name OpenaiChat = ''openai-chat''"
| "name OpenaiResponses = ''openai-responses''"
| "name Gemini = ''gemini''"
| "name Bedrock = ''bedrock''"

text \<open>
  \<open>detect\<close> gives the truth value of what the descriptor's \<^verbatim>\<open>detect\<close> returns
  (\<^verbatim>\<open>body.messages && Array.isArray(body.messages)\<close> returns the falsy property
  itself when there is none). A body that is \<^verbatim>\<open>null\<close> or \<^verbatim>\<open>undefined\<close> makes the
  first property read throw.
\<close>

fun detect :: "format \<Rightarrow> json \<Rightarrow> error + bool" where
  "detect OpenaiChat body =
     andThen (readProp body ''messages'') (\<lambda>v. Inr (truthy v \<and> isArray v))"
| "detect OpenaiResponses body =
     andThen (readProp body ''input'') (\<lambda>v. Inr (truthy v \<and> isArray v))"
| "detect Gemini body =
     andThen (readProp body ''contents'') (\<lambda>v. Inr (truthy v \<and> isArray v))"
| "detect Bedrock body =
     andThen (readProp body ''system'') (\<lambda>sys.
       Inr (isArray sys \<and> get body ''inferenceConfig'' \<noteq> JUndef \<and> isArray (get body ''messages'')))"

fun dataKey :: "format \<Rightarrow> string" where
  "dataKey OpenaiChat = ''messages''"
| "dataKey OpenaiResponses = ''input''"
| "dataKey Gemini = ''contents''"
| "dataKey Bedrock = ''messages''"

definition getDataArray :: "format \<Rightarrow> json \<Rightarrow> error + json" where
  "getDataArray f body = readProp body (dataKey f)"

subsection \<open>openai-chat.ts\<close>

text \<open>\<^verbatim>\<open>typeof v === 'string' ? v : JSON.stringify(v)\<close>\<close>

definition stringOrStringify :: "json \<Rightarrow> json" where
  "stringOrStringify v = (case v of JStr s \<Rightarrow> JStr s | _ \<Rightarrow> JSON_stringify v)"

definition chatPartOutputs :: "json \<Rightarrow> error + ToolOutput list" where
  "chatPartOutputs part =
     (if nullish part then Inl TypeError
      else if get part ''type'' = JStr ''tool_result'' \<and> truthy (get part ''tool_use_id'')
      then andThen (callToLowerCase (get part ''tool_use_id'')) (\<lambda>i.
             Inr [\<lparr> id_str = i, toolName = JUndef,
                    content = stringOrStringify (get part ''content'') \<rparr>])
      else Inr [])"

definition chatTurnOutputs :: "json \<Rightarrow> error + ToolOutput list" where
  "chatTurnOutputs m =
     (if nullish m then Inl TypeError
      else
        andThen
          (if get m ''role'' = JStr ''tool'' \<and> truthy (get m ''tool_call_id'')
           then andThen (callToLowerCase (get m ''tool_call_id'')) (\<lambda>i.
                  Inr [\<lparr> id_str = i, toolName = get m ''name'',
                         content = stringOrStringify (get m ''content'') \<rparr>])
           else Inr [])
          (\<lambda>native.
             andThen
               (if get m ''role'' = JStr ''user''
                then (case get m ''content'' of
                        JArr parts \<Rightarrow> collect chatPartOutputs parts
                      | _ \<Rightarrow> Inr [])
                else Inr [])
               (\<lambda>anthropic. Inr (native @ anthropic))))"

subsection \<open>openai-responses.ts\<close>

definition responsesItemOutputs :: "json \<Rightarrow> error + ToolOutput list" where
  "responsesItemOutputs item =
     (if nullish item then Inl TypeError
      else if get item ''type'' = JStr ''function_call_output'' \<and> truthy (get item ''call_id'')
      then andThen (callToLowerCase (get item ''call_id'')) (\<lambda>i.
             Inr [\<lparr> id_str = i, toolName = get item ''name'',
                    content = stringOrStringify (get item ''output'') \<rparr>])
      else Inr [])"

subsection \<open>bedrock.ts\<close>

text \<open>\<^verbatim>\<open>content.map((c) => c.text || JSON.stringify(c)).join('\n')\<close>\<close>

fun bedrockTexts :: "json list \<Rightarrow> error + json list" where
  "bedrockTexts [] = Inr []"
| "bedrockTexts (c # cs) =
     (if nullish c then Inl TypeError
      else andThen (bedrockTexts cs) (\<lambda>ts. Inr (orElse (get c ''text'') (JSON_stringify c) # ts)))"

definition bedrockContent :: "json \<Rightarrow> error + json" where
  "bedrockContent c =
     (case c of
        JArr cs \<Rightarrow> andThen (bedrockTexts cs) (\<lambda>ts. andThen (join ts [CHR 0x0A]) (\<lambda>s. Inr (JStr s)))
      | _ \<Rightarrow> Inr (JSON_stringify c))"

definition bedrockBlockOutputs :: "json \<Rightarrow> error + ToolOutput list" where
  "bedrockBlockOutputs block =
     (if nullish block then Inl TypeError
      else if truthy (get block ''toolResult'')
              \<and> truthy (get (get block ''toolResult'') ''toolUseId'')
      then andThen (callToLowerCase (get (get block ''toolResult'') ''toolUseId'')) (\<lambda>toolUseId.
           andThen (bedrockContent (get (get block ''toolResult'') ''content'')) (\<lambda>c.
             Inr [\<lparr> id_str = toolUseId, toolName = JUndef, content = c \<rparr>]))
      else Inr [])"

definition bedrockTurnOutputs :: "json \<Rightarrow> error + ToolOutput list" where
  "bedrockTurnOutputs m =
     (if nullish m then Inl TypeError
      else if get m ''role'' = JStr ''user''
      then (case get m ''content'' of
              JArr blocks \<Rightarrow> collect bedrockBlockOutputs blocks
            | _ \<Rightarrow> Inr [])
      else Inr [])"

subsection \<open>gemini.ts\<close>

text \<open>
  The position mapping taken from the state: the first table of the store, in
  iteration order, that has an entry. The session key is bound and never used.
\<close>

fun firstNonEmpty :: "(string \<times> (string \<times> string) list) list \<Rightarrow> (string \<times> string) list option" where
  "firstNonEmpty [] = None"
| "firstNonEmpty ((sessionId, mapping) # rest) =
     (if mapping \<noteq> [] then Some mapping else firstNonEmpty rest)"

text \<open>\<^verbatim>\<open>response?.content || JSON.stringify(response)\<close>\<close>

definition geminiContent :: "json \<Rightarrow> json" where
  "geminiContent response = orElse (optProp response ''content'') (JSON_stringify response)"

text \<open>
  Without a position mapping. \<open>outputs\<close> is the array of outputs pushed so far; the
  number in the synthetic identifier is its length at the time of the push.
\<close>

fun geminiFallbackParts :: "ToolOutput list \<Rightarrow> json list \<Rightarrow> error + ToolOutput list" where
  "geminiFallbackParts outputs [] = Inr outputs"
| "geminiFallbackParts outputs (part # parts) =
     (if nullish part then Inl TypeError
      else if truthy (get part ''functionResponse'')
      then andThen (optToLowerCase (get (get part ''functionResponse'') ''name'')) (\<lambda>funcName.
             geminiFallbackParts
               (outputs @
                 [\<lparr> id_str = ''gemini-'' @ interpolate funcName @ ''-'' @ showNat (length outputs),
                    toolName = funcName,
                    content = geminiContent (get (get part ''functionResponse'') ''response'') \<rparr>])
               parts)
      else geminiFallbackParts outputs parts)"

fun geminiFallback :: "ToolOutput list \<Rightarrow> json list \<Rightarrow> error + ToolOutput list" where
  "geminiFallback outputs [] = Inr outputs"
| "geminiFallback outputs (c # cs) =
     (if nullish c then Inl TypeError
      else (case get c ''parts'' of
              JArr parts \<Rightarrow>
                andThen (geminiFallbackParts outputs parts) (\<lambda>outputs'. geminiFallback outputs' cs)
            | _ \<Rightarrow> geminiFallback outputs cs))"

text \<open>
  With a position mapping. \<open>toolPositionCounters\<close> counts, per lower-cased function
  name, the function responses met so far in this pass.
\<close>

definition counterOf :: "(string \<rightharpoonup> nat) \<Rightarrow> string \<Rightarrow> nat" where
  "counterOf counters k = (case counters k of Some n \<Rightarrow> n | None \<Rightarrow> 0)"

definition positionKey :: "string \<Rightarrow> nat \<Rightarrow> string" where
  "positionKey tool index = tool @ '':'' @ showNat index"

definition recoveredId :: "(string \<times> string) list \<Rightarrow> string \<Rightarrow> nat \<Rightarrow> string" where
  "recoveredId positionMapping funcName currentIndex =
     (case map_of positionMapping (positionKey funcName currentIndex) of
        Some toolCallId \<Rightarrow>
          (if toLowerCase toolCallId \<noteq> [] then toLowerCase toolCallId
           else ''gemini-'' @ funcName @ ''-'' @ showNat currentIndex)
      | None \<Rightarrow> ''gemini-'' @ funcName @ ''-'' @ showNat currentIndex)"

fun geminiMappedParts ::
  "(string \<times> string) list \<Rightarrow> (string \<rightharpoonup> nat) \<times> ToolOutput list \<Rightarrow> json list
     \<Rightarrow> error + (string \<rightharpoonup> nat) \<times> ToolOutput list" where
  "geminiMappedParts pm (counters, outputs) [] = Inr (counters, outputs)"
| "geminiMappedParts pm (counters, outputs) (part # parts) =
     (if nullish part then Inl TypeError
      else if truthy (get part ''functionResponse'')
      then andThen (optToLowerCase (get (get part ''functionResponse'') ''name'')) (\<lambda>funcName.
             (case funcName of
                JStr fname \<Rightarrow>
                  (if fname \<noteq> []
                   then geminiMappedParts pm
                          (counters(fname \<mapsto> counterOf counters fname + 1),
                           outputs @
                             [\<lparr> id_str = recoveredId pm fname (counterOf counters fname),
                                toolName = funcName,
                                content =
                                  geminiContent (get (get part ''functionResponse'') ''response'') \<rparr>])
                          parts
                   else geminiMappedParts pm (counters, outputs) parts)
              | _ \<Rightarrow> geminiMappedParts pm (counters, outputs) parts))
      else geminiMappedParts pm (counters, outputs) parts)"

fun geminiMapped ::
  "(string \<times> string) list \<Rightarrow> (string \<rightharpoonup> nat) \<times> ToolOutput list \<Rightarrow> json list
     \<Rightarrow> error + (string \<rightharpoonup> nat) \<times> ToolOutput list" where
  "geminiMapped pm st [] = Inr st"
| "geminiMapped pm st (c # cs) =
     (if nullish c then Inl TypeError
      else (case get c ''parts'' of
              JArr parts \<Rightarrow> andThen (geminiMappedParts pm st parts) (\<lambda>st'. geminiMapped pm st' cs)
            | _ \<Rightarrow> geminiMapped pm st cs))"

subsection \<open>The descriptors' \<^verbatim>\<open>extractToolOutputs\<close>\<close>

fun extractToolOutputs :: "format \<Rightarrow> json list \<Rightarrow> PluginState \<Rightarrow> error + ToolOutput list" where
  "extractToolOutputs OpenaiChat data state = collect chatTurnOutputs data"
| "extractToolOutputs OpenaiResponses data state = collect responsesItemOutputs data"
| "extractToolOutputs Bedrock data state = collect bedrockTurnOutputs data"
| "extractToolOutputs Gemini data state =
     (case firstNonEmpty (googleToolCallMapping state) of
        None \<Rightarrow> geminiFallback [] data
      | Some positionMapping \<Rightarrow>
          andThen (geminiMapped positionMapping (Map.empty, []) data) (\<lambda>(counters, outputs). Inr outputs))"

section \<open>Format detection and mutation utilities (fetch-wrapper/index.ts)\<close>

definition detectFormat :: "json \<Rightarrow> error + format option" where
  "detectFormat body =
     andThen (detect OpenaiResponses body) (\<lambda>r.
       if r then Inr (Some OpenaiResponses)
       else andThen (detect Bedrock body) (\<lambda>b.
         if b then Inr (Some Bedrock)
         else andThen (detect OpenaiChat body) (\<lambda>c.
           if c then Inr (Some OpenaiChat)
           else andThen (detect Gemini body) (\<lambda>g.
             if g then Inr (Some Gemini) else Inr None))))"

text \<open>
  A loop that rewrites the elements of an array one by one, or an
  \<^verbatim>\<open>Array.prototype.map\<close> whose callback raises a flag: the flag and the new
  elements, or the first exception.
\<close>

fun mapFlag :: "('a \<Rightarrow> error + bool \<times> 'a) \<Rightarrow> 'a list \<Rightarrow> error + bool \<times> 'a list" where
  "mapFlag f [] = Inr (False, [])"
| "mapFlag f (x # xs) =
     andThen (f x) (\<lambda>(b, y). andThen (mapFlag f xs) (\<lambda>(c, ys). Inr (b \<or> c, y # ys)))"

subsection \<open>\<^verbatim>\<open>replaceToolOutput\<close>\<close>

definition chatReplacePart :: "string \<Rightarrow> string \<Rightarrow> json \<Rightarrow> error + bool \<times> json" where
  "chatReplacePart toolIdLower newContent part =
     (if nullish part then Inl TypeError
      else if get part ''type'' = JStr ''tool_result''
      then andThen (optToLowerCase (get part ''tool_use_id'')) (\<lambda>i.
             if i = JStr toolIdLower then Inr (True, setProp part ''content'' (JStr newContent))
             else Inr (False, part))
      else Inr (False, part))"

text \<open>
  The second \<^verbatim>\<open>if\<close> of the loop body reads the turn \<open>m\<close> fetched at the top of
  the iteration, not the element the first \<^verbatim>\<open>if\<close> may have stored.
\<close>

definition chatReplaceTurn :: "string \<Rightarrow> string \<Rightarrow> json \<Rightarrow> error + bool \<times> json" where
  "chatReplaceTurn toolIdLower newContent m =
     (if nullish m then Inl TypeError
      else
        andThen
          (if get m ''role'' = JStr ''tool''
           then andThen (optToLowerCase (get m ''tool_call_id'')) (\<lambda>i. Inr (i = JStr toolIdLower))
           else Inr False)
          (\<lambda>hit.
             if get m ''role'' = JStr ''user''
             then (case get m ''content'' of
                     JArr parts \<Rightarrow>
                       andThen (mapFlag (chatReplacePart toolIdLower newContent) parts)
                         (\<lambda>(modified, newContentArray).
                            if modified then Inr (True, setProp m ''content'' (JArr newContentArray))
                            else Inr (hit, if hit then setProp m ''content'' (JStr newContent) else m))
                   | _ \<Rightarrow> Inr (hit, if hit then setProp m ''content'' (JStr newContent) else m))
             else Inr (hit, if hit then setProp m ''content'' (JStr newContent) else m)))"

definition responsesReplaceItem :: "string \<Rightarrow> string \<Rightarrow> json \<Rightarrow> error + bool \<times> json" where
  "responsesReplaceItem toolIdLower newContent item =
     (if nullish item then Inl TypeError
      else if get item ''type'' = JStr ''function_call_output''
      then andThen (optToLowerCase (get item ''call_id'')) (\<lambda>i.
             if i = JStr toolIdLower then Inr (True, setProp item ''output'' (JStr newContent))
             else Inr (False, item))
      else Inr (False, item))"

definition bedrockReplaceBlock :: "string \<Rightarrow> string \<Rightarrow> json \<Rightarrow> error + bool \<times> json" where
  "bedrockReplaceBlock toolIdLower newContent block =
     (if nullish block then Inl TypeError
      else if truthy (get block ''toolResult'')
      then andThen (optToLowerCase (get (get block ''toolResult'') ''toolUseId'')) (\<lambda>i.
             if i = JStr toolIdLower
             then Inr (True,
                    setProp block ''toolResult''
                      (setProp (get block ''toolResult'') ''content''
                         (JArr [JObj [(''text'', JStr newContent)]])))
             else Inr (False, block))
      else Inr (False, block))"

definition bedrockReplaceTurn :: "string \<Rightarrow> string \<Rightarrow> json \<Rightarrow> error + bool \<times> json" where
  "bedrockReplaceTurn toolIdLower newContent m =
     (if nullish m then Inl TypeError
      else if get m ''role'' = JStr ''user''
      then (case get m ''content'' of
              JArr blocks \<Rightarrow>
                andThen (mapFlag (bedrockReplaceBlock toolIdLower newContent) blocks)
                  (\<lambda>(modified, newContentArray).
                     if modified then Inr (True, setProp m ''content'' (JArr newContentArray))
                     else Inr (False, m))
            | _ \<Rightarrow> Inr (False, m))
      else Inr (False, m))"

text \<open>
  Gemini: the walk of the extraction pass is repeated with fresh counters; a part is
  rewritten when the identifier its position maps to is the wanted one.
\<close>

definition mappedIdMatches :: "(string \<times> string) list \<Rightarrow> string \<Rightarrow> nat \<Rightarrow> string \<Rightarrow> bool" where
  "mappedIdMatches positionMapping funcName currentIndex toolIdLower =
     (case map_of positionMapping (positionKey funcName currentIndex) of
        Some mappedToolId \<Rightarrow> toLowerCase mappedToolId = toolIdLower
      | None \<Rightarrow> False)"

definition geminiNewPart :: "string \<Rightarrow> json \<Rightarrow> json" where
  "geminiNewPart newContent part =
     setProp part ''functionResponse''
       (setProp (get part ''functionResponse'') ''response''
          (JObj [(''name'', get (get part ''functionResponse'') ''name''),
                 (''content'', JStr newContent)]))"

fun geminiReplaceParts ::
  "(string \<times> string) list \<Rightarrow> string \<Rightarrow> string \<Rightarrow> (string \<rightharpoonup> nat) \<Rightarrow> json list
     \<Rightarrow> error + (string \<rightharpoonup> nat) \<times> bool \<times> json list" where
  "geminiReplaceParts pm toolIdLower newContent counters [] = Inr (counters, False, [])"
| "geminiReplaceParts pm toolIdLower newContent counters (part # parts) =
     (if nullish part then Inl TypeError
      else
        andThen
          (if truthy (get part ''functionResponse'')
           then andThen (optToLowerCase (get (get part ''functionResponse'') ''name'')) (\<lambda>funcName.
                  (case funcName of
                     JStr fname \<Rightarrow>
                       (if fname \<noteq> []
                        then Inr (counters(fname \<mapsto> counterOf counters fname + 1),
                                  if mappedIdMatches pm fname (counterOf counters fname) toolIdLower
                                  then (True, geminiNewPart newContent part)
                                  else (False, part))
                        else Inr (counters, False, part))
                   | _ \<Rightarrow> Inr (counters, False, part)))
           else Inr (counters, False, part))
          (\<lambda>(counters', hit, part').
             andThen (geminiReplaceParts pm toolIdLower newContent counters' parts)
               (\<lambda>(counters'', modified, parts'). Inr (counters'', hit \<or> modified, part' # parts'))))"

fun geminiReplace ::
  "(string \<times> string) list \<Rightarrow> string \<Rightarrow> string \<Rightarrow> (string \<rightharpoonup> nat) \<Rightarrow> json list
     \<Rightarrow> error + bool \<times> json list" where
  "geminiReplace pm toolIdLower newContent counters [] = Inr (False, [])"
| "geminiReplace pm toolIdLower newContent counters (c # cs) =
     (if nullish c then Inl TypeError
      else
        andThen
          (case get c ''parts'' of
             JArr parts \<Rightarrow>
               andThen (geminiReplaceParts pm toolIdLower newContent counters parts)
                 (\<lambda>(counters', contentModified, newParts).
                    Inr (counters', contentModified,
                         if contentModified then setProp c ''parts'' (JArr newParts) else c))
           | _ \<Rightarrow> Inr (counters, False, c))
          (\<lambda>(counters', hit, c').
             andThen (geminiReplace pm toolIdLower newContent counters' cs)
               (\<lambda>(replaced, cs'). Inr (hit \<or> replaced, c' # cs'))))"

fun replaceLoop ::
  "format \<Rightarrow> string \<Rightarrow> string \<Rightarrow> PluginState \<Rightarrow> json list \<Rightarrow> error + bool \<times> json list" where
  "replaceLoop OpenaiChat toolIdLower newContent state dataArray =
     mapFlag (chatReplaceTurn toolIdLower newContent) dataArray"
| "replaceLoop OpenaiResponses toolIdLower newContent state dataArray =
     mapFlag (responsesReplaceItem toolIdLower newContent) dataArray"
| "replaceLoop Gemini toolIdLower newContent state dataArray =
     (case firstNonEmpty (googleToolCallMapping state) of
        None \<Rightarrow> Inr (False, dataArray)
      | Some positionMapping \<Rightarrow>
          geminiReplace positionMapping toolIdLower newContent Map.empty dataArray)"
| "replaceLoop Bedrock toolIdLower newContent state dataArray =
     mapFlag (bedrockReplaceTurn toolIdLower newContent) dataArray"

text \<open>
  The utilities return the flag; the body they were given has been mutated in place.
  The model returns the flag together with the body as it is after the call. When
  the walk throws, the turns before the offending one may already have been
  rewritten; the model keeps no body for that outcome (the fetch wrapper catches the
  exception and forwards the original payload).
\<close>

definition replaceToolOutput ::
  "json \<Rightarrow> format \<Rightarrow> string \<Rightarrow> string \<Rightarrow> PluginState \<Rightarrow> error + bool \<times> json" where
  "replaceToolOutput body f toolId newContent state =
     andThen (getDataArray f body) (\<lambda>dataArray.
       case dataArray of
         JArr turns \<Rightarrow>
           andThen (replaceLoop f (toLowerCase toolId) newContent state turns)
             (\<lambda>(replaced, turns'). Inr (replaced, setProp body (dataKey f) (JArr turns')))
       | v \<Rightarrow> if truthy v then Inl NotAnArray else Inr (False, body))"

subsection \<open>\<^verbatim>\<open>injectIntoLastUserMessage\<close>\<close>

text \<open>The condition under which the loop body takes an item for a user message.\<close>

fun isUserItem :: "format \<Rightarrow> json \<Rightarrow> error + bool" where
  "isUserItem OpenaiChat item =
     andThen (readProp item ''role'') (\<lambda>r. Inr (r = JStr ''user''))"
| "isUserItem OpenaiResponses item =
     andThen (readProp item ''type'') (\<lambda>t. Inr (t = JStr ''message'' \<and> get item ''role'' = JStr ''user''))"
| "isUserItem Gemini item =
     andThen (readProp item ''role'') (\<lambda>r. Inr (r = JStr ''user'' \<and> isArray (get item ''parts'')))"
| "isUserItem Bedrock item =
     andThen (readProp item ''role'') (\<lambda>r. Inr (r = JStr ''user''))"

definition appendToContent :: "string \<Rightarrow> string \<Rightarrow> json \<Rightarrow> json" where
  "appendToContent partType text item =
     (case get item ''content'' of
        JStr s \<Rightarrow> setProp item ''content'' (JStr (s @ [CHR 0x0A, CHR 0x0A] @ text))
      | JArr parts \<Rightarrow>
          setProp item ''content''
            (JArr (parts @ [JObj [(''type'', JStr partType), (''text'', JStr text)]]))
      | _ \<Rightarrow> item)"

fun injectInto :: "format \<Rightarrow> string \<Rightarrow> json \<Rightarrow> json" where
  "injectInto OpenaiChat text item = appendToContent ''text'' text item"
| "injectInto OpenaiResponses text item = appendToContent ''input_text'' text item"
| "injectInto Gemini text item =
     (case get item ''parts'' of
        JArr parts \<Rightarrow> setProp item ''parts'' (JArr (parts @ [JObj [(''text'', JStr text)]]))
      | _ \<Rightarrow> item)"
| "injectInto Bedrock text item = appendToContent ''text'' text item"

text \<open>
  \<open>injectLoop f text turns n\<close> is the loop \<^verbatim>\<open>for (i = n - 1; i >= 0; i--)\<close>; it is
  entered with \<open>n = length turns\<close>.
\<close>

fun injectLoop :: "format \<Rightarrow> string \<Rightarrow> json list \<Rightarrow> nat \<Rightarrow> error + bool \<times> json list" where
  "injectLoop f text turns 0 = Inr (False, turns)"
| "injectLoop f text turns (Suc i) =
     andThen (isUserItem f (turns ! i)) (\<lambda>user.
       if user then Inr (True, turns[i := injectInto f text (turns ! i)])
       else injectLoop f text turns i)"

definition injectIntoLastUserMessage :: "json \<Rightarrow> format \<Rightarrow> string \<Rightarrow> error + bool \<times> json" where
  "injectIntoLastUserMessage body f text =
     andThen (getDataArray f body) (\<lambda>dataArray.
       case dataArray of
         JArr turns \<Rightarrow>
           andThen (injectLoop f text turns (length turns))
             (\<lambda>(injected, turns'). Inr (injected, setProp body (dataKey f) (JArr turns')))
       | v \<Rightarrow> if truthy v then Inl NotAnArray else Inr (False, body))"

subsection \<open>\<^verbatim>\<open>appendUserMessage\<close>\<close>

fun newUserMessage :: "format \<Rightarrow> string \<Rightarrow> json" where
  "newUserMessage OpenaiChat text = JObj [(''role'', JStr ''user''), (''content'', JStr text)]"
| "newUserMessage Bedrock text = JObj [(''role'', JStr ''user''), (''content'', JStr text)]"
| "newUserMessage OpenaiResponses text =
     JObj [(''type'', JStr ''message''), (''role'', JStr ''user''), (''content'', JStr text)]"
| "newUserMessage Gemini text =
     JObj [(''role'', JStr ''user''), (''parts'', JArr [JObj [(''text'', JStr text)]])]"

definition appendUserMessage :: "json \<Rightarrow> format \<Rightarrow> string \<Rightarrow> error + bool \<times> json" where
  "appendUserMessage body f text =
     andThen (getDataArray f body) (\<lambda>dataArray.
       case dataArray of
         JArr turns \<Rightarrow>
           Inr (True, setProp body (dataKey f) (JArr (turns @ [newUserMessage f text])))
       | v \<Rightarrow> if truthy v then Inl NotAnArray else Inr (False, body))"

section \<open>The chat.params hook (hooks.ts)\<close>

text \<open>
  The host's client is an external collaborator: each of its two calls is a function
  of the session identifier that yields the response, or \<open>None\<close> when the call
  rejects. The hook input carries the session identifier, a string as in the
  declared type of the state, and three fields of type \<^verbatim>\<open>any\<close>. One run of the
  handler is one step on the state: the handler is asynchronous, and what another
  handler could do to the state while this one awaits the client is not modelled.
  Logging has no effect on the state and is left out.
\<close>

record Client =
  sessionGet :: "string \<Rightarrow> json option"
  sessionMessages :: "string \<Rightarrow> json option"

record ChatParamsInput =
  sessionID :: string
  provider :: json
  modelRef :: json
  message :: json

definition isSubagentSession :: "Client \<Rightarrow> string \<Rightarrow> bool" where
  "isSubagentSession client sid =
     (case sessionGet client sid of
        None \<Rightarrow> False
      | Some result \<Rightarrow>
          (case readProp result ''data'' of
             Inl e \<Rightarrow> False
           | Inr d \<Rightarrow> truthy (optProp d ''parentID'')))"

text \<open>
  \<open>toolCallsByName\<close>: per lower-cased tool name, the lower-cased call identifiers in
  transcript order. A name enters the map at its first call and keeps that place.
\<close>

definition pushCall :: "(string \<times> string list) list \<Rightarrow> string \<Rightarrow> string \<Rightarrow> (string \<times> string list) list" where
  "pushCall toolCallsByName tool callId =
     AList.update tool
       ((case map_of toolCallsByName tool of Some callIds \<Rightarrow> callIds | None \<Rightarrow> []) @ [callId])
       toolCallsByName"

fun collectParts :: "(string \<times> string list) list \<Rightarrow> json list \<Rightarrow> error + (string \<times> string list) list" where
  "collectParts byName [] = Inr byName"
| "collectParts byName (part # parts) =
     (if nullish part then Inl TypeError
      else if get part ''type'' = JStr ''tool'' \<and> truthy (get part ''callID'') \<and> truthy (get part ''tool'')
      then andThen (callToLowerCase (get part ''tool'')) (\<lambda>tool.
           andThen (callToLowerCase (get part ''callID'')) (\<lambda>callId.
             collectParts (pushCall byName tool callId) parts))
      else collectParts byName parts)"

text \<open>
  \<^verbatim>\<open>if (msg.parts) for (const part of msg.parts)\<close>: an array is walked; a non-empty
  string is iterable too, and its characters have no \<^verbatim>\<open>type\<close>; any other truthy
  value is not iterable.
\<close>

fun collectMessages :: "(string \<times> string list) list \<Rightarrow> json list \<Rightarrow> error + (string \<times> string list) list" where
  "collectMessages byName [] = Inr byName"
| "collectMessages byName (msg # msgs) =
     (if nullish msg then Inl TypeError
      else if truthy (get msg ''parts'')
      then (case get msg ''parts'' of
              JArr parts \<Rightarrow> andThen (collectParts byName parts) (\<lambda>byName'. collectMessages byName' msgs)
            | JStr s \<Rightarrow> collectMessages byName msgs
            | _ \<Rightarrow> Inl TypeError)
      else collectMessages byName msgs)"

fun setPositions :: "(string \<times> string) list \<Rightarrow> string \<Rightarrow> nat \<Rightarrow> string list \<Rightarrow> (string \<times> string) list" where
  "setPositions positionMapping tool index [] = positionMapping"
| "setPositions positionMapping tool index (callId # callIds) =
     setPositions (AList.update (positionKey tool index) callId positionMapping) tool (Suc index) callIds"

fun flatten :: "(string \<times> string) list \<Rightarrow> (string \<times> string list) list \<Rightarrow> (string \<times> string) list" where
  "flatten positionMapping [] = positionMapping"
| "flatten positionMapping ((tool, callIds) # rest) =
     flatten (setPositions positionMapping tool 0 callIds) rest"

definition buildPositionMapping :: "json list \<Rightarrow> error + (string \<times> string) list" where
  "buildPositionMapping messages =
     andThen (collectMessages [] messages) (\<lambda>toolCallsByName. Inr (flatten [] toolCallsByName))"

text \<open>
  The body of the \<^verbatim>\<open>try\<close> block: any exception, a rejected fetch included, is
  caught and logged, and leaves the store as it is.
\<close>

definition rebuildMapping :: "Client \<Rightarrow> string \<Rightarrow> PluginState \<Rightarrow> PluginState" where
  "rebuildMapping client sessionId state =
     (case sessionMessages client sessionId of
        None \<Rightarrow> state
      | Some messagesResponse \<Rightarrow>
          (case readProp messagesResponse ''data'' of
             Inl e \<Rightarrow> state
           | Inr d \<Rightarrow>
               (case orElse d messagesResponse of
                  JArr messages \<Rightarrow>
                    (case buildPositionMapping messages of
                       Inl e \<Rightarrow> state
                     | Inr positionMapping \<Rightarrow>
                         state\<lparr> googleToolCallMapping :=
                                  AList.update sessionId positionMapping (googleToolCallMapping state) \<rparr>)
                | _ \<Rightarrow> state)))"

definition providerOf :: "ChatParamsInput \<Rightarrow> json" where
  "providerOf input =
     (let providerID = orElse (optProp (optProp (provider input) ''info'') ''id'')
                              (optProp (provider input) ''id'')
      in if \<not> truthy providerID
            \<and> truthy (optProp (optProp (message input) ''model'') ''providerID'')
         then optProp (optProp (message input) ''model'') ''providerID''
         else providerID)"

text \<open>
  The session-change test \<^verbatim>\<open>state.lastSeenSessionId && state.lastSeenSessionId !== sessionId\<close>
  is a truthiness test: \<^verbatim>\<open>null\<close> and the empty string both count as no session seen.
\<close>

definition sessionChanged :: "PluginState \<Rightarrow> string \<Rightarrow> bool" where
  "sessionChanged state sessionId =
     (case lastSeenSessionId state of
        None \<Rightarrow> False
      | Some lastSeen \<Rightarrow> lastSeen \<noteq> [] \<and> lastSeen \<noteq> sessionId)"

definition chatParamsHandler :: "Client \<Rightarrow> PluginState \<Rightarrow> ChatParamsInput \<Rightarrow> PluginState" where
  "chatParamsHandler client state input =
     (let sessionId = sessionID input;
          providerID = providerOf input;
          modelID = optProp (modelRef input) ''id'';
          s1 = (if sessionChanged state sessionId
                then state\<lparr> googleToolCallMapping := [] \<rparr> else state);
          s2 = s1\<lparr> lastSeenSessionId := Some sessionId \<rparr>;
          s3 = (if sessionId \<notin> set (checkedSessions s2)
                then (let s = s2\<lparr> checkedSessions := checkedSessions s2 @ [sessionId] \<rparr>
                      in if isSubagentSession client sessionId
                            \<and> sessionId \<notin> set (subagentSessions s)
                         then s\<lparr> subagentSessions := subagentSessions s @ [sessionId] \<rparr>
                         else s)
                else s2);
          s4 = (if truthy providerID \<and> truthy modelID
                then s3\<lparr> model := AList.update sessionId
                                     \<lparr> providerID = providerID, modelID = modelID \<rparr> (model s3) \<rparr>
                else s3)
      in if providerID = JStr ''google'' \<or> providerID = JStr ''google-vertex''
         then rebuildMapping client sessionId s4
         else s4)"

section \<open>Definitions used to state the properties\<close>

text \<open>
  The detector as the specification words it: the descriptors are tried in a fixed
  order and the first one that detects the body is returned.
\<close>

fun firstMatch :: "format list \<Rightarrow> json \<Rightarrow> error + format option" where
  "firstMatch [] body = Inr None"
| "firstMatch (f # fs) body =
     andThen (detect f body) (\<lambda>d. if d then Inr (Some f) else firstMatch fs body)"

text \<open>A Bedrock Converse request: it has a \<^verbatim>\<open>messages\<close> array, as a Chat request has.\<close>

definition bedrockBody :: json where
  "bedrockBody =
     JObj [(''system'', JArr [JObj [(''text'', JStr ''be brief'')]]),
           (''inferenceConfig'', JObj [(''maxTokens'', JNum 512)]),
           (''messages'',
              JArr [JObj [(''role'', JStr ''user''),
                          (''content'', JArr [JObj [(''text'', JStr ''hi'')]])]])]"

text \<open>
  The correlator example of the specification: a transcript of three messages whose
  tool parts are, in order, \<^verbatim>\<open>read\<close>, \<^verbatim>\<open>write\<close>, \<^verbatim>\<open>read\<close>; a client that
  serves it; a chat.params input of the Google provider; and the contents of a Gemini
  request whose function responses come in the same order.
\<close>

definition toolPart :: "string \<Rightarrow> string \<Rightarrow> json" where
  "toolPart tool callId =
     JObj [(''type'', JStr ''tool''), (''callID'', JStr callId), (''tool'', JStr tool)]"

definition exampleTranscript :: "string \<Rightarrow> string \<Rightarrow> string \<Rightarrow> json list" where
  "exampleTranscript id1 id2 id3 =
     [JObj [(''info'', JObj [(''role'', JStr ''user'')]),
            (''parts'', JArr [JObj [(''type'', JStr ''text''), (''text'', JStr ''go'')]])],
      JObj [(''info'', JObj [(''role'', JStr ''assistant'')]),
            (''parts'', JArr [toolPart ''read'' id1, toolPart ''write'' id2])],
      JObj [(''info'', JObj [(''role'', JStr ''assistant'')]),
            (''parts'', JArr [JObj [(''type'', JStr ''text''), (''text'', JStr ''ok'')],
                              toolPart ''read'' id3])]]"

definition exampleClient :: "json list \<Rightarrow> Client" where
  "exampleClient transcript =
     \<lparr> sessionGet = (\<lambda>sid. Some (JObj [(''data'', JObj [(''id'', JStr sid)])])),
       sessionMessages = (\<lambda>sid. Some (JObj [(''data'', JArr transcript)])) \<rparr>"

definition googleInput :: "string \<Rightarrow> ChatParamsInput" where
  "googleInput sid =
     \<lparr> sessionID = sid,
       provider = JObj [(''info'', JObj [(''id'', JStr ''google'')])],
       modelRef = JObj [(''id'', JStr ''gemini-pro'')],
       message = JUndef \<rparr>"

definition functionResponsePart :: "string \<Rightarrow> string \<Rightarrow> json" where
  "functionResponsePart fname out =
     JObj [(''functionResponse'',
            JObj [(''name'', JStr fname),
                  (''response'', JObj [(''name'', JStr fname), (''content'', JStr out)])])]"

definition exampleContents :: "json list" where
  "exampleContents =
     [JObj [(''role'', JStr ''user''), (''parts'', JArr [JObj [(''text'', JStr ''go'')]])],
      JObj [(''role'', JStr ''user''),
            (''parts'', JArr [functionResponsePart ''read'' ''a'', functionResponsePart ''write'' ''b''])],
      JObj [(''role'', JStr ''user''), (''parts'', JArr [functionResponsePart ''read'' ''c''])]]"

text \<open>
  The synthetic identifiers as C3 words them: the number is the rank of the
  part among the parts of the same tool name. \<open>names\<close> are the tool names of the
  function-response parts in walk order.
\<close>

definition rankIn :: "string list \<Rightarrow> nat \<Rightarrow> nat" where
  "rankIn names i = length (filter (\<lambda>n. n = names ! i) (take i names))"

definition perToolSyntheticIds :: "string list \<Rightarrow> string list" where
  "perToolSyntheticIds names =
     map (\<lambda>i. ''gemini-'' @ names ! i @ ''-'' @ showNat (rankIn names i)) [0..<length names]"

text \<open>
  The function responses of a Gemini turn array, in the order of the walk: the truthy
  \<^verbatim>\<open>functionResponse\<close> of every part of every turn whose \<^verbatim>\<open>parts\<close> is an array.
\<close>

definition partsOf :: "json \<Rightarrow> json list" where
  "partsOf c = (case get c ''parts'' of JArr parts \<Rightarrow> parts | _ \<Rightarrow> [])"

definition functionResponses :: "json list \<Rightarrow> json list" where
  "functionResponses data =
     filter truthy (map (\<lambda>part. get part ''functionResponse'') (concat (map partsOf data)))"

definition isSynthetic :: "nat \<times> json \<Rightarrow> ToolOutput \<Rightarrow> bool" where
  "isSynthetic = (\<lambda>(i, fr) out.
     optToLowerCase (get fr ''name'') = Inr (toolName out)
     \<and> id_str out = ''gemini-'' @ interpolate (toolName out) @ ''-'' @ showNat i)"

definition exampleFallbackOutputs :: "ToolOutput list" where
  "exampleFallbackOutputs =
     [\<lparr> id_str = ''gemini-read-0'', toolName = JStr ''read'', content = JStr ''a'' \<rparr>,
      \<lparr> id_str = ''gemini-write-1'', toolName = JStr ''write'', content = JStr ''b'' \<rparr>,
      \<lparr> id_str = ''gemini-read-2'', toolName = JStr ''read'', content = JStr ''c'' \<rparr>]"

text \<open>Requests of the three formats that carry their tool identifiers natively.\<close>

definition chatTurns :: "json list" where
  "chatTurns =
     [JObj [(''role'', JStr ''user''), (''content'', JStr ''list the files'')],
      JObj [(''role'', JStr ''assistant''), (''content'', JNull)],
      JObj [(''role'', JStr ''tool''), (''tool_call_id'', JStr ''Call_A1''), (''content'', JStr ''a.txt'')]]"

definition lowerId :: "ToolOutput \<Rightarrow> bool" where
  "lowerId out \<longleftrightarrow> toLowerCase (id_str out) = id_str out"

text \<open>
  A store whose first table is empty and whose second, kept under another session
  than the one last seen, is the table of the correlator example; and a request
  body with the contents of that example.
\<close>

definition exampleTable :: "(string \<times> string) list" where
  "exampleTable = [(''read:0'', ''id1''), (''read:1'', ''id3''), (''write:0'', ''id2'')]"

definition otherSessionState :: PluginState where
  "otherSessionState =
     \<lparr> model = [], googleToolCallMapping = [(''ses_A'', []), (''ses_B'', exampleTable)],
       checkedSessions = [''ses_A'', ''ses_B'', ''ses_C''], subagentSessions = [],
       lastSeenSessionId = Some ''ses_C'' \<rparr>"

definition geminiBody :: json where
  "geminiBody = JObj [(''contents'', JArr exampleContents)]"

text \<open>
  A client that serves no transcript, and chat.params inputs of a provider other
  than Google and of the Google provider.
\<close>

definition offlineClient :: Client where
  "offlineClient = \<lparr> sessionGet = (\<lambda>sid. None), sessionMessages = (\<lambda>sid. None) \<rparr>"

definition plainInput :: "string \<Rightarrow> ChatParamsInput" where
  "plainInput sid =
     \<lparr> sessionID = sid,
       provider = JObj [(''id'', JStr ''anthropic'')],
       modelRef = JObj [(''id'', JStr ''claude'')],
       message = JUndef \<rparr>"

definition sessionAState :: PluginState where
  "sessionAState =
     \<lparr> model = [], googleToolCallMapping = [(''ses_A'', exampleTable)],
       checkedSessions = [''ses_A''], subagentSessions = [],
       lastSeenSessionId = Some ''ses_A'' \<rparr>"

text \<open>A Chat request whose turns are a user, an assistant and a tool turn.\<close>

definition chatBody :: json where
  "chatBody = JObj [(''model'', JStr ''gpt''), (''messages'', JArr chatTurns)]"

text \<open>
  To state what a replacement may change, the tool-result content that a replacement
  of identifier \<open>lid\<close> (lower-cased) is allowed to write is erased from a body: two
  bodies that are equal after the erasure differ at most there. \<open>lowerOf v\<close> is the
  value of \<^verbatim>\<open>v?.toLowerCase()\<close> when that does not throw.
\<close>

definition lowerOf :: "json \<Rightarrow> json" where
  "lowerOf v = (case v of JStr s \<Rightarrow> JStr (toLowerCase s) | _ \<Rightarrow> JUndef)"

definition eraseChatPart :: "string \<Rightarrow> json \<Rightarrow> json" where
  "eraseChatPart lid part =
     (if get part ''type'' = JStr ''tool_result'' \<and> lowerOf (get part ''tool_use_id'') = JStr lid
      then setProp part ''content'' JUndef else part)"

definition eraseChatTurn :: "string \<Rightarrow> json \<Rightarrow> json" where
  "eraseChatTurn lid m =
     (if get m ''role'' = JStr ''tool'' \<and> lowerOf (get m ''tool_call_id'') = JStr lid
      then setProp m ''content'' JUndef
      else if get m ''role'' = JStr ''user''
      then (case get m ''content'' of
              JArr parts \<Rightarrow> setProp m ''content'' (JArr (map (eraseChatPart lid) parts))
            | _ \<Rightarrow> m)
      else m)"

definition eraseResponsesItem :: "string \<Rightarrow> json \<Rightarrow> json" where
  "eraseResponsesItem lid item =
     (if get item ''type'' = JStr ''function_call_output'' \<and> lowerOf (get item ''call_id'') = JStr lid
      then setProp item ''output'' JUndef else item)"

definition eraseBedrockBlock :: "string \<Rightarrow> json \<Rightarrow> json" where
  "eraseBedrockBlock lid block =
     (if truthy (get block ''toolResult'')
         \<and> lowerOf (get (get block ''toolResult'') ''toolUseId'') = JStr lid
      then setProp block ''toolResult'' (setProp (get block ''toolResult'') ''content'' JUndef)
      else block)"

definition eraseBedrockTurn :: "string \<Rightarrow> json \<Rightarrow> json" where
  "eraseBedrockTurn lid m =
     (if get m ''role'' = JStr ''user''
      then (case get m ''content'' of
              JArr blocks \<Rightarrow> setProp m ''content'' (JArr (map (eraseBedrockBlock lid) blocks))
            | _ \<Rightarrow> m)
      else m)"

text \<open>
  For Gemini the part that an identifier designates depends on its position: the
  erasure counts the function responses per lower-cased name as the walk does.
  \<open>countedName part\<close> is the name under which a part is counted, if it is.
\<close>

definition countedName :: "json \<Rightarrow> string option" where
  "countedName part =
     (if truthy (get part ''functionResponse'')
      then (case lowerOf (get (get part ''functionResponse'') ''name'') of
              JStr fname \<Rightarrow> if fname \<noteq> [] then Some fname else None
            | _ \<Rightarrow> None)
      else None)"

definition eraseResponse :: "json \<Rightarrow> json" where
  "eraseResponse part =
     setProp part ''functionResponse''
       (setProp (get part ''functionResponse'') ''response'' JUndef)"

fun eraseGeminiParts ::
  "(string \<times> string) list \<Rightarrow> string \<Rightarrow> (string \<rightharpoonup> nat) \<Rightarrow> json list
     \<Rightarrow> (string \<rightharpoonup> nat) \<times> json list" where
  "eraseGeminiParts pm lid counters [] = (counters, [])"
| "eraseGeminiParts pm lid counters (part # parts) =
     (case countedName part of
        None \<Rightarrow>
          (case eraseGeminiParts pm lid counters parts of
             (counters', parts') \<Rightarrow> (counters', part # parts'))
      | Some fname \<Rightarrow>
          (case eraseGeminiParts pm lid (counters(fname \<mapsto> counterOf counters fname + 1)) parts of
             (counters', parts') \<Rightarrow>
               (counters',
                (if mappedIdMatches pm fname (counterOf counters fname) lid
                 then eraseResponse part else part) # parts')))"

fun eraseGemini ::
  "(string \<times> string) list \<Rightarrow> string \<Rightarrow> (string \<rightharpoonup> nat) \<Rightarrow> json list \<Rightarrow> json list" where
  "eraseGemini pm lid counters [] = []"
| "eraseGemini pm lid counters (c # cs) =
     (case get c ''parts'' of
        JArr parts \<Rightarrow>
          (case eraseGeminiParts pm lid counters parts of
             (counters', parts') \<Rightarrow>
               setProp c ''parts'' (JArr parts') # eraseGemini pm lid counters' cs)
      | _ \<Rightarrow> c # eraseGemini pm lid counters cs)"

fun eraseTurns :: "format \<Rightarrow> PluginState \<Rightarrow> string \<Rightarrow> json list \<Rightarrow> json list" where
  "eraseTurns OpenaiChat state lid turns = map (eraseChatTurn lid) turns"
| "eraseTurns OpenaiResponses state lid turns = map (eraseResponsesItem lid) turns"
| "eraseTurns Bedrock state lid turns = map (eraseBedrockTurn lid) turns"
| "eraseTurns Gemini state lid turns =
     (case firstNonEmpty (googleToolCallMapping state) of
        None \<Rightarrow> turns
      | Some pm \<Rightarrow> eraseGemini pm lid Map.empty turns)"

definition eraseBody :: "format \<Rightarrow> PluginState \<Rightarrow> string \<Rightarrow> json \<Rightarrow> json" where
  "eraseBody f state lid body =
     (case get body (dataKey f) of
        JArr turns \<Rightarrow> setProp body (dataKey f) (JArr (eraseTurns f state lid turns))
      | _ \<Rightarrow> body)"

text \<open>A Bedrock request with a tool result of several content blocks.\<close>

definition bedrockToolBody :: json where
  "bedrockToolBody =
     JObj [(''system'', JArr []),
           (''inferenceConfig'', JObj []),
           (''messages'',
              JArr [JObj [(''role'', JStr ''user''),
                          (''content'',
                             JArr [JObj [(''toolResult'',
                                     JObj [(''toolUseId'', JStr ''Tool_1''),
                                           (''content'', JArr [JObj [(''text'', JStr ''a'')],
                                                               JObj [(''text'', JStr ''b'')]]),
                                           (''status'', JStr ''success'')])],
                                   JObj [(''text'', JStr ''and then?'')]])]])]"

definition bedrockPrunedBody :: json where
  "bedrockPrunedBody =
     JObj [(''system'', JArr []),
           (''inferenceConfig'', JObj []),
           (''messages'',
              JArr [JObj [(''role'', JStr ''user''),
                          (''content'',
                             JArr [JObj [(''toolResult'',
                                     JObj [(''toolUseId'', JStr ''Tool_1''),
                                           (''content'', JArr [JObj [(''text'', JStr ''pruned'')]]),
                                           (''status'', JStr ''success'')])],
                                   JObj [(''text'', JStr ''and then?'')]])]])]"

text \<open>
  Chat requests with a tool turn whose identifier is the empty string, and with one
  whose identifier is the number zero: the extraction skips both turns, since the
  identifier is falsy.
\<close>

definition emptyIdBody :: json where
  "emptyIdBody =
     JObj [(''messages'',
              JArr [JObj [(''role'', JStr ''tool''), (''tool_call_id'', JStr ''''),
                          (''content'', JStr ''a.txt'')]])]"

definition zeroIdBody :: json where
  "zeroIdBody =
     JObj [(''messages'',
              JArr [JObj [(''role'', JStr ''tool''), (''tool_call_id'', JNum 0),
                          (''content'', JStr ''a.txt'')]])]"

text \<open>
  The tool calls of a transcript, in the order of the builder's walk: for every part
  of every message whose \<^verbatim>\<open>parts\<close> is an array, the pair of \<^verbatim>\<open>tool\<close> and
  \<^verbatim>\<open>callID\<close> when the part has the type \<^verbatim>\<open>tool\<close> and both are truthy.
\<close>

definition isToolCall :: "json \<Rightarrow> bool" where
  "isToolCall part \<longleftrightarrow>
     get part ''type'' = JStr ''tool'' \<and> truthy (get part ''callID'') \<and> truthy (get part ''tool'')"

definition toolCalls :: "json list \<Rightarrow> (json \<times> json) list" where
  "toolCalls messages =
     map (\<lambda>part. (get part ''tool'', get part ''callID''))
       (filter isToolCall (concat (map partsOf messages)))"

text \<open>
  A transcript the builder can walk: no message and no part is \<^verbatim>\<open>null\<close> or
  \<^verbatim>\<open>undefined\<close>, and the \<^verbatim>\<open>parts\<close> of a message are absent (falsy) or iterable
  (an array, or a string). Likewise the turns of a Gemini request.
\<close>

definition partsIterable :: "json \<Rightarrow> bool" where
  "partsIterable v = (case v of JArr parts \<Rightarrow> True | JStr s \<Rightarrow> True | _ \<Rightarrow> \<not> truthy v)"

definition wellFormedTranscript :: "json list \<Rightarrow> bool" where
  "wellFormedTranscript messages =
     list_all (\<lambda>msg. \<not> nullish msg \<and> partsIterable (get msg ''parts'')
                    \<and> list_all (\<lambda>part. \<not> nullish part) (partsOf msg)) messages"

definition wellFormedContents :: "json list \<Rightarrow> bool" where
  "wellFormedContents data =
     list_all (\<lambda>c. \<not> nullish c \<and> list_all (\<lambda>part. \<not> nullish part) (partsOf c)) data"

text \<open>
  The two walks on the flat lists: \<open>pushCalls\<close> does to \<open>toolCallsByName\<close> what the
  builder does at each tool call, \<open>mappedWalk\<close> does to the counters and the outputs
  what the Gemini extraction does at each function response.
\<close>

fun pushCalls ::
  "(string \<times> string list) list \<Rightarrow> (json \<times> json) list \<Rightarrow> error + (string \<times> string list) list" where
  "pushCalls byName [] = Inr byName"
| "pushCalls byName ((t, c) # calls) =
     andThen (callToLowerCase t) (\<lambda>tool.
     andThen (callToLowerCase c) (\<lambda>callId.
       pushCalls (pushCall byName tool callId) calls))"

fun mappedWalk ::
  "(string \<times> string) list \<Rightarrow> (string \<rightharpoonup> nat) \<times> ToolOutput list \<Rightarrow> json list
     \<Rightarrow> error + (string \<rightharpoonup> nat) \<times> ToolOutput list" where
  "mappedWalk pm (counters, outputs) [] = Inr (counters, outputs)"
| "mappedWalk pm (counters, outputs) (fr # frs) =
     andThen (optToLowerCase (get fr ''name'')) (\<lambda>funcName.
       (case funcName of
          JStr fname \<Rightarrow>
            (if fname \<noteq> []
             then mappedWalk pm
                    (counters(fname \<mapsto> counterOf counters fname + 1),
                     outputs @
                       [\<lparr> id_str = recoveredId pm fname (counterOf counters fname),
                          toolName = funcName,
                          content = geminiContent (get fr ''response'') \<rparr>])
                    frs
             else mappedWalk pm (counters, outputs) frs)
        | _ \<Rightarrow> mappedWalk pm (counters, outputs) frs))"

text \<open>A transcript that holds the three calls of the example in one message.\<close>

definition oneMessageTranscript :: "json list" where
  "oneMessageTranscript =
     [JObj [(''info'', JObj [(''role'', JStr ''assistant'')]),
            (''parts'', JArr [toolPart ''read'' ''id1'', toolPart ''write'' ''id2'',
                              toolPart ''read'' ''id3''])]]"
section \<open>Basic facts\<close>

lemma andThen_Inl [simp]: "andThen (Inl e) f = Inl e"
  by (simp add: andThen_def)

lemma andThen_Inr [simp]: "andThen (Inr x) f = f x"
  by (simp add: andThen_def)

lemma andThen_eq_Inr: "andThen m f = Inr y \<longleftrightarrow> (\<exists>x. m = Inr x \<and> f x = Inr y)"
  by (cases m) simp_all

lemma isArray_truthy [simp]: "isArray v \<Longrightarrow> truthy v"
  by (cases v) simp_all

lemma toLowerCase_Nil [simp]: "toLowerCase [] = []"
  by (simp add: toLowerCase_def)

lemma toLowerCase_Cons [simp]: "toLowerCase (c # s) = lowerChar c # toLowerCase s"
  by (simp add: toLowerCase_def)

lemma toLowerCase_append [simp]: "toLowerCase (s @ t) = toLowerCase s @ toLowerCase t"
  by (simp add: toLowerCase_def)

lemma toLowerCase_eq_Nil [simp]: "toLowerCase s = [] \<longleftrightarrow> s = []"
  by (simp add: toLowerCase_def)

lemma eq_char_of_iff: "c = char_of (n :: nat) \<longleftrightarrow> take_bit 8 n = of_char c"
  using char_of_eq_iff [of n c] by (simp only: eq_commute [of c])

lemmas lower_simps = lowerChar_def char_of_eq_iff eq_char_of_iff

section \<open>Format detection\<close>

text \<open>
  C2. The detector tries the four predicates in the order Responses, Bedrock, Chat,
  Gemini and returns the first match (a \<^verbatim>\<open>null\<close> body makes the first predicate
  throw, in the detector as in the ordered search). A body that satisfies Bedrock's
  compound predicate and whose \<^verbatim>\<open>input\<close> is not an array also satisfies Chat's
  predicate, and is classified as Bedrock.
\<close>

theorem detectFormat_priority:
  "detectFormat body = firstMatch [OpenaiResponses, Bedrock, OpenaiChat, Gemini] body
   \<and> (detect Bedrock body = Inr True \<and> \<not> isArray (get body ''input'')
        \<longrightarrow> detect OpenaiChat body = Inr True \<and> detectFormat body = Inr (Some Bedrock))"
proof (cases "nullish body")
  case True
  then show ?thesis
    by (simp add: detectFormat_def readProp_def)
next
  case False
  then show ?thesis
    by (auto simp: detectFormat_def readProp_def)
qed

theorem detectFormat_priority_witness:
  "detect Bedrock bedrockBody = Inr True \<and> \<not> isArray (get bedrockBody ''input'')
   \<and> detect OpenaiChat bedrockBody = Inr True
   \<and> detectFormat bedrockBody = Inr (Some Bedrock)"
  using detectFormat_priority [of bedrockBody]
  by (simp add: bedrockBody_def readProp_def)

lemmas run_simps =
  readProp_def optProp_def orElse_def lowerChar_def showNat.simps
  digitChar_def positionKey_def counterOf_def

section \<open>Synthetic identifiers without a correlation table\<close>

text \<open>
  C3, as stated, fails. With an empty store, the function responses
  \<^verbatim>\<open>read, write, read\<close> get the identifiers \<^verbatim>\<open>gemini-read-0\<close>,
  \<^verbatim>\<open>gemini-write-1\<close>, \<^verbatim>\<open>gemini-read-2\<close>: the number is the count of all outputs
  pushed so far. The per-tool-name rank would give
  \<^verbatim>\<open>gemini-read-0\<close>, \<^verbatim>\<open>gemini-write-0\<close>, \<^verbatim>\<open>gemini-read-1\<close>.
\<close>

theorem synthetic_id_per_tool_counterexample:
  "firstNonEmpty (googleToolCallMapping createPluginState) = None
   \<and> map_sum id (map id_str) (extractToolOutputs Gemini exampleContents createPluginState)
       = Inr [''gemini-read-0'', ''gemini-write-1'', ''gemini-read-2'']
   \<and> perToolSyntheticIds [''read'', ''write'', ''read'']
       = [''gemini-read-0'', ''gemini-write-0'', ''gemini-read-1'']
   \<and> map_sum id (map id_str) (extractToolOutputs Gemini exampleContents createPluginState)
       \<noteq> Inr (perToolSyntheticIds [''read'', ''write'', ''read''])"
  by (simp add: createPluginState_def exampleContents_def functionResponsePart_def
      geminiContent_def perToolSyntheticIds_def rankIn_def upt_conv_Cons run_simps)

lemma geminiFallbackParts_outputs:
  "geminiFallbackParts outputs parts = Inr outs \<Longrightarrow>
   \<exists>new. outs = outputs @ new
     \<and> list_all2 isSynthetic
          (enumerate (length outputs)
             (filter truthy (map (\<lambda>part. get part ''functionResponse'') parts))) new"
proof (induction parts arbitrary: outputs)
  case Nil
  then show ?case by simp
next
  case (Cons part parts)
  show ?case
  proof (cases "truthy (get part ''functionResponse'')")
    case False
    with Cons.prems have "geminiFallbackParts outputs parts = Inr outs"
      by (simp split: if_splits)
    from Cons.IH [OF this] False show ?thesis by simp
  next
    case True
    with Cons.prems obtain funcName where
      fn: "optToLowerCase (get (get part ''functionResponse'') ''name'') = Inr funcName"
      and rest: "geminiFallbackParts
            (outputs @
              [\<lparr> id_str = ''gemini-'' @ interpolate funcName @ ''-'' @ showNat (length outputs),
                 toolName = funcName,
                 content = geminiContent (get (get part ''functionResponse'') ''response'') \<rparr>])
            parts = Inr outs"
      by (auto simp: andThen_eq_Inr split: if_splits)
    from Cons.IH [OF rest] obtain new where
      new: "outs = (outputs @
              [\<lparr> id_str = ''gemini-'' @ interpolate funcName @ ''-'' @ showNat (length outputs),
                 toolName = funcName,
                 content = geminiContent (get (get part ''functionResponse'') ''response'') \<rparr>]) @ new"
      and all: "list_all2 isSynthetic
          (enumerate (Suc (length outputs))
             (filter truthy (map (\<lambda>part. get part ''functionResponse'') parts))) new"
      by auto
    from True fn new all show ?thesis
      by (simp add: isSynthetic_def)
  qed
qed

lemma functionResponses_Cons:
  "functionResponses (c # cs) =
     filter truthy (map (\<lambda>part. get part ''functionResponse'') (partsOf c)) @ functionResponses cs"
  by (simp add: functionResponses_def)

lemma geminiFallback_outputs:
  "geminiFallback outputs data = Inr outs \<Longrightarrow>
   \<exists>new. outs = outputs @ new
     \<and> list_all2 isSynthetic (enumerate (length outputs) (functionResponses data)) new"
proof (induction data arbitrary: outputs)
  case Nil
  then show ?case by (simp add: functionResponses_def)
next
  case (Cons c cs)
  show ?case
  proof (cases "get c ''parts''")
    case (JArr parts)
    with Cons.prems obtain mid where
      mid: "geminiFallbackParts outputs parts = Inr mid"
      and rest: "geminiFallback mid cs = Inr outs"
      by (auto simp: andThen_eq_Inr split: if_splits)
    from geminiFallbackParts_outputs [OF mid] obtain new1 where
      new1: "mid = outputs @ new1"
      and all1: "list_all2 isSynthetic
          (enumerate (length outputs)
             (filter truthy (map (\<lambda>part. get part ''functionResponse'') parts))) new1"
      by auto
    from Cons.IH [OF rest] obtain new2 where
      new2: "outs = mid @ new2"
      and all2: "list_all2 isSynthetic (enumerate (length mid) (functionResponses cs)) new2"
      by auto
    from all1 have len: "length new1 =
        length (filter truthy (map (\<lambda>part. get part ''functionResponse'') parts))"
      by (auto dest: list_all2_lengthD)
    have "list_all2 isSynthetic (enumerate (length outputs) (functionResponses (c # cs))) (new1 @ new2)"
      using all1 all2 new1 len JArr
      by (simp add: functionResponses_Cons partsOf_def enumerate_append_eq list_all2_appendI)
    with new1 new2 show ?thesis by auto
  next
    case JUndef
    with Cons.prems have "geminiFallback outputs cs = Inr outs"
      by (simp split: if_splits)
    from Cons.IH [OF this] JUndef show ?thesis
      by (simp add: functionResponses_Cons partsOf_def)
  next
    case JNull
    with Cons.prems have "geminiFallback outputs cs = Inr outs"
      by (simp split: if_splits)
    from Cons.IH [OF this] JNull show ?thesis
      by (simp add: functionResponses_Cons partsOf_def)
  next
    case (JBool b)
    with Cons.prems have "geminiFallback outputs cs = Inr outs"
      by (simp split: if_splits)
    from Cons.IH [OF this] JBool show ?thesis
      by (simp add: functionResponses_Cons partsOf_def)
  next
    case (JNum n)
    with Cons.prems have "geminiFallback outputs cs = Inr outs"
      by (simp split: if_splits)
    from Cons.IH [OF this] JNum show ?thesis
      by (simp add: functionResponses_Cons partsOf_def)
  next
    case (JStr s)
    with Cons.prems have "geminiFallback outputs cs = Inr outs"
      by (simp split: if_splits)
    from Cons.IH [OF this] JStr show ?thesis
      by (simp add: functionResponses_Cons partsOf_def)
  next
    case (JObj kvs)
    with Cons.prems have "geminiFallback outputs cs = Inr outs"
      by (simp split: if_splits)
    from Cons.IH [OF this] JObj show ?thesis
      by (simp add: functionResponses_Cons partsOf_def)
  qed
qed

text \<open>
  C3, amended. Without a correlation table, every function-response part of the
  request gets one output, in walk order; the output's tool name is the part's
  lower-cased name (\<^verbatim>\<open>undefined\<close> when the part has none) and its identifier is
  \<^verbatim>\<open>gemini-{toolName}-{n}\<close>, where \<open>n\<close> is the zero-based position of the part among
  all function-response parts of the request.
\<close>

theorem synthetic_id_global_counter:
  assumes "firstNonEmpty (googleToolCallMapping state) = None"
    and "extractToolOutputs Gemini data state = Inr outs"
  shows "length outs = length (functionResponses data)
       \<and> (\<forall>i < length outs.
            optToLowerCase (get (functionResponses data ! i) ''name'') = Inr (toolName (outs ! i))
          \<and> id_str (outs ! i) = ''gemini-'' @ interpolate (toolName (outs ! i)) @ ''-'' @ showNat i)"
proof -
  from assms have "geminiFallback [] data = Inr outs"
    by simp
  from geminiFallback_outputs [OF this]
  have all: "list_all2 isSynthetic (enumerate 0 (functionResponses data)) outs"
    by simp
  then have len: "length outs = length (functionResponses data)"
    by (auto dest: list_all2_lengthD)
  have "isSynthetic (i, functionResponses data ! i) (outs ! i)" if "i < length outs" for i
    using list_all2_nthD2 [OF all that] that len
    by (simp add: nth_enumerate_eq)
  with len show ?thesis
    by (simp add: isSynthetic_def)
qed

theorem synthetic_id_global_counter_witness:
  "firstNonEmpty (googleToolCallMapping createPluginState) = None
   \<and> extractToolOutputs Gemini exampleContents createPluginState = Inr exampleFallbackOutputs
   \<and> length exampleFallbackOutputs = length (functionResponses exampleContents)
   \<and> optToLowerCase (get (functionResponses exampleContents ! 1) ''name'')
         = Inr (toolName (exampleFallbackOutputs ! 1))
   \<and> id_str (exampleFallbackOutputs ! 1)
         = ''gemini-'' @ interpolate (toolName (exampleFallbackOutputs ! 1)) @ ''-'' @ showNat 1
   \<and> map id_str exampleFallbackOutputs = [''gemini-read-0'', ''gemini-write-1'', ''gemini-read-2'']"
proof -
  have none: "firstNonEmpty (googleToolCallMapping createPluginState) = None"
    by (simp add: createPluginState_def)
  have outs: "extractToolOutputs Gemini exampleContents createPluginState = Inr exampleFallbackOutputs"
    by (simp add: createPluginState_def exampleContents_def functionResponsePart_def
        exampleFallbackOutputs_def geminiContent_def run_simps)
  have ids: "map id_str exampleFallbackOutputs = [''gemini-read-0'', ''gemini-write-1'', ''gemini-read-2'']"
    by (simp add: exampleFallbackOutputs_def)
  have one: "1 < length exampleFallbackOutputs"
    by (simp add: exampleFallbackOutputs_def)
  from synthetic_id_global_counter [OF none outs] one
  have "length exampleFallbackOutputs = length (functionResponses exampleContents)"
    and "optToLowerCase (get (functionResponses exampleContents ! 1) ''name'')
           = Inr (toolName (exampleFallbackOutputs ! 1))
       \<and> id_str (exampleFallbackOutputs ! 1)
           = ''gemini-'' @ interpolate (toolName (exampleFallbackOutputs ! 1)) @ ''-'' @ showNat 1"
    by blast+
  with none outs ids show ?thesis
    by blast
qed

section \<open>Identifiers of extracted tool outputs are lower-case\<close>

lemma lowerChar_idem [simp]: "lowerChar (lowerChar c) = lowerChar c"
  by (simp add: lowerChar_def)

lemma toLowerCase_idem [simp]: "toLowerCase (toLowerCase s) = toLowerCase s"
  by (simp add: toLowerCase_def)

lemma lowerChar_digitChar: "d < 10 \<Longrightarrow> lowerChar (digitChar d) = digitChar d"
proof -
  assume "d < 10"
  then have "d \<in> {0, 1, 2, 3, 4, 5, 6, 7, 8, 9}"
    by auto
  then show ?thesis
    by (auto simp: digitChar_def lowerChar_def)
qed

lemma toLowerCase_showNat [simp]: "toLowerCase (showNat n) = showNat n"
proof (induction n rule: showNat.induct)
  case (1 n)
  show ?case
  proof (cases "n < 10")
    case True
    then show ?thesis
      by (subst (1 2) showNat.simps) (simp add: lowerChar_digitChar)
  next
    case False
    with "1" show ?thesis
      by (subst (1 2) showNat.simps) (simp add: lowerChar_digitChar)
  qed
qed

lemma callToLowerCase_lower: "callToLowerCase v = Inr i \<Longrightarrow> toLowerCase i = i"
  by (cases v) auto

lemma optToLowerCase_interpolate:
  "optToLowerCase v = Inr w \<Longrightarrow> toLowerCase (interpolate w) = interpolate w"
  by (cases v) (auto simp: lowerChar_def)

lemma optToLowerCase_JStr: "optToLowerCase v = Inr (JStr s) \<Longrightarrow> toLowerCase s = s"
  by (cases v) auto

lemma collect_all:
  assumes "collect f xs = Inr outs"
    and "\<And>x ys. f x = Inr ys \<Longrightarrow> \<forall>y\<in>set ys. P y"
  shows "\<forall>y\<in>set outs. P y"
  using assms(1)
proof (induction xs arbitrary: outs)
  case Nil
  then show ?case by simp
next
  case (Cons x xs)
  then obtain ys zs where "f x = Inr ys" and "collect f xs = Inr zs" and "outs = ys @ zs"
    by (auto simp: andThen_eq_Inr)
  with Cons.IH assms(2) show ?case
    by auto
qed

lemma chatPartOutputs_lower: "chatPartOutputs part = Inr ys \<Longrightarrow> \<forall>y\<in>set ys. lowerId y"
  by (auto simp: chatPartOutputs_def lowerId_def andThen_eq_Inr callToLowerCase_lower
      split: if_splits)

lemma chatTurnOutputs_lower:
  assumes "chatTurnOutputs m = Inr ys"
  shows "\<forall>y\<in>set ys. lowerId y"
proof -
  from assms obtain a b where
    a: "(if get m ''role'' = JStr ''tool'' \<and> truthy (get m ''tool_call_id'')
         then andThen (callToLowerCase (get m ''tool_call_id'')) (\<lambda>i.
                Inr [\<lparr> id_str = i, toolName = get m ''name'',
                       content = stringOrStringify (get m ''content'') \<rparr>])
         else Inr []) = Inr a"
    and b: "(if get m ''role'' = JStr ''user''
             then (case get m ''content'' of
                     JArr parts \<Rightarrow> collect chatPartOutputs parts
                   | _ \<Rightarrow> Inr [])
             else Inr []) = Inr b"
    and ys: "ys = a @ b"
    by (auto simp: chatTurnOutputs_def andThen_eq_Inr split: if_splits)
  from a have "\<forall>y\<in>set a. lowerId y"
    by (auto simp: lowerId_def andThen_eq_Inr callToLowerCase_lower split: if_splits)
  moreover from b have "\<forall>y\<in>set b. lowerId y"
    by (auto split: if_splits json.splits dest: collect_all [OF _ chatPartOutputs_lower])
  ultimately show ?thesis
    using ys by auto
qed

lemma responsesItemOutputs_lower: "responsesItemOutputs item = Inr ys \<Longrightarrow> \<forall>y\<in>set ys. lowerId y"
  by (auto simp: responsesItemOutputs_def lowerId_def andThen_eq_Inr callToLowerCase_lower
      split: if_splits)

lemma bedrockBlockOutputs_lower: "bedrockBlockOutputs block = Inr ys \<Longrightarrow> \<forall>y\<in>set ys. lowerId y"
  by (auto simp: bedrockBlockOutputs_def lowerId_def andThen_eq_Inr callToLowerCase_lower
      split: if_splits)

lemma bedrockTurnOutputs_lower: "bedrockTurnOutputs m = Inr ys \<Longrightarrow> \<forall>y\<in>set ys. lowerId y"
  by (auto simp: bedrockTurnOutputs_def split: if_splits json.splits
      dest: collect_all [OF _ bedrockBlockOutputs_lower])

lemma isSynthetic_lower: "isSynthetic p out \<Longrightarrow> lowerId out"
  by (cases p) (auto simp: isSynthetic_def lowerId_def optToLowerCase_interpolate lowerChar_def)

lemma geminiFallback_lower:
  assumes "geminiFallback [] data = Inr outs"
  shows "\<forall>y\<in>set outs. lowerId y"
proof
  fix y
  assume "y \<in> set outs"
  then obtain i where i: "i < length outs" and y: "outs ! i = y"
    by (auto simp: in_set_conv_nth)
  from geminiFallback_outputs [OF assms]
  have "list_all2 isSynthetic (enumerate 0 (functionResponses data)) outs"
    by simp
  from list_all2_nthD2 [OF this i] y show "lowerId y"
    by (auto intro: isSynthetic_lower)
qed

lemma recoveredId_lower:
  "toLowerCase fname = fname \<Longrightarrow> toLowerCase (recoveredId pm fname n) = recoveredId pm fname n"
  by (simp add: recoveredId_def lowerChar_def split: option.splits)

lemma geminiMappedParts_lower:
  "geminiMappedParts pm (counters, outputs) parts = Inr (counters', outs) \<Longrightarrow>
   \<forall>y\<in>set outputs. lowerId y \<Longrightarrow> \<forall>y\<in>set outs. lowerId y"
proof (induction parts arbitrary: counters outputs)
  case Nil
  then show ?case by simp
next
  case (Cons part parts)
  show ?case
  proof (cases "truthy (get part ''functionResponse'')")
    case False
    with Cons.prems have "geminiMappedParts pm (counters, outputs) parts = Inr (counters', outs)"
      by (simp split: if_splits)
    from Cons.IH [OF this Cons.prems(2)] show ?thesis .
  next
    case True
    with Cons.prems obtain funcName where
      fn: "optToLowerCase (get (get part ''functionResponse'') ''name'') = Inr funcName"
      and rest: "(case funcName of
                JStr fname \<Rightarrow>
                  (if fname \<noteq> []
                   then geminiMappedParts pm
                          (counters(fname \<mapsto> counterOf counters fname + 1),
                           outputs @
                             [\<lparr> id_str = recoveredId pm fname (counterOf counters fname),
                                toolName = funcName,
                                content =
                                  geminiContent (get (get part ''functionResponse'') ''response'') \<rparr>])
                          parts
                   else geminiMappedParts pm (counters, outputs) parts)
              | _ \<Rightarrow> geminiMappedParts pm (counters, outputs) parts) = Inr (counters', outs)"
      by (auto simp: andThen_eq_Inr split: if_splits)
    show ?thesis
    proof (cases "\<exists>fname. funcName = JStr fname \<and> fname \<noteq> []")
      case True
      then obtain fname where f: "funcName = JStr fname" "fname \<noteq> []"
        by auto
      with fn have "toLowerCase fname = fname"
        by (auto dest: optToLowerCase_JStr)
      then have "lowerId \<lparr> id_str = recoveredId pm fname (counterOf counters fname),
                                toolName = funcName,
                                content =
                                  geminiContent (get (get part ''functionResponse'') ''response'') \<rparr>"
        by (simp add: lowerId_def recoveredId_lower)
      with Cons.prems(2) have "\<forall>y\<in>set (outputs @
                             [\<lparr> id_str = recoveredId pm fname (counterOf counters fname),
                                toolName = funcName,
                                content =
                                  geminiContent (get (get part ''functionResponse'') ''response'') \<rparr>]). lowerId y"
        by auto
      moreover from rest f have "geminiMappedParts pm
                          (counters(fname \<mapsto> counterOf counters fname + 1),
                           outputs @
                             [\<lparr> id_str = recoveredId pm fname (counterOf counters fname),
                                toolName = funcName,
                                content =
                                  geminiContent (get (get part ''functionResponse'') ''response'') \<rparr>])
                          parts = Inr (counters', outs)"
        by simp
      ultimately show ?thesis
        using Cons.IH by blast
    next
      case False
      with rest have "geminiMappedParts pm (counters, outputs) parts = Inr (counters', outs)"
        by (cases funcName) (auto split: if_splits)
      from Cons.IH [OF this Cons.prems(2)] show ?thesis .
    qed
  qed
qed

lemma geminiMapped_lower:
  "geminiMapped pm (counters, outputs) data = Inr (counters', outs) \<Longrightarrow>
   \<forall>y\<in>set outputs. lowerId y \<Longrightarrow> \<forall>y\<in>set outs. lowerId y"
proof (induction data arbitrary: counters outputs)
  case Nil
  then show ?case by simp
next
  case (Cons c cs)
  show ?case
  proof (cases "isArray (get c ''parts'')")
    case True
    then obtain parts where parts: "get c ''parts'' = JArr parts"
      by (cases "get c ''parts''") auto
    with Cons.prems obtain c1 o1 where
      mid: "geminiMappedParts pm (counters, outputs) parts = Inr (c1, o1)"
      and rest: "geminiMapped pm (c1, o1) cs = Inr (counters', outs)"
      by (auto simp: andThen_eq_Inr split: if_splits)
    from geminiMappedParts_lower [OF mid Cons.prems(2)] Cons.IH [OF rest] show ?thesis
      by blast
  next
    case False
    with Cons.prems have "geminiMapped pm (counters, outputs) cs = Inr (counters', outs)"
      by (cases "get c ''parts''") (auto split: if_splits)
    from Cons.IH [OF this Cons.prems(2)] show ?thesis .
  qed
qed

text \<open>
  C9. For every format and every data array, every tool output that
  \<^verbatim>\<open>extractToolOutputs\<close> returns has an identifier equal to its own lower-casing.
\<close>

theorem extracted_ids_lower_case:
  assumes "extractToolOutputs f data state = Inr outs"
  shows "\<forall>out\<in>set outs. toLowerCase (id_str out) = id_str out"
proof -
  have "\<forall>out\<in>set outs. lowerId out"
  proof (cases f)
    case OpenaiChat
    with assms show ?thesis
      by (auto dest: collect_all [OF _ chatTurnOutputs_lower])
  next
    case OpenaiResponses
    with assms show ?thesis
      by (auto dest: collect_all [OF _ responsesItemOutputs_lower])
  next
    case Bedrock
    with assms show ?thesis
      by (auto dest: collect_all [OF _ bedrockTurnOutputs_lower])
  next
    case Gemini
    show ?thesis
    proof (cases "firstNonEmpty (googleToolCallMapping state)")
      case None
      with assms Gemini show ?thesis
        by (auto dest: geminiFallback_lower)
    next
      case (Some pm)
      with assms Gemini obtain counters' where
        "geminiMapped pm (Map.empty, []) data = Inr (counters', outs)"
        by (auto simp: andThen_eq_Inr)
      from geminiMapped_lower [OF this] show ?thesis
        by simp
    qed
  qed
  then show ?thesis
    by (simp add: lowerId_def)
qed

theorem extracted_ids_lower_case_witness:
  "extractToolOutputs OpenaiChat chatTurns createPluginState
     = Inr [\<lparr> id_str = ''call_a1'', toolName = JUndef, content = JStr ''a.txt'' \<rparr>]
   \<and> toLowerCase ''call_a1'' = ''call_a1''"
proof -
  have outs: "extractToolOutputs OpenaiChat chatTurns createPluginState
     = Inr [\<lparr> id_str = ''call_a1'', toolName = JUndef, content = JStr ''a.txt'' \<rparr>]"
    by (simp add: chatTurns_def chatTurnOutputs_def stringOrStringify_def lowerChar_def
        char_of_eq_iff)
  from extracted_ids_lower_case [OF outs] have "toLowerCase ''call_a1'' = ''call_a1''"
    by simp
  with outs show ?thesis
    by blast
qed

section \<open>The correlation store\<close>

lemma firstNonEmpty_append:
  "\<forall>(k, m)\<in>set pre. m = [] \<Longrightarrow> table \<noteq> [] \<Longrightarrow>
   firstNonEmpty (pre @ (key, table) # post) = Some table"
  by (induction pre) auto

text \<open>
  C10. When the store holds a non-empty table, preceded in iteration order by empty
  tables only, the Gemini extraction and the Gemini replacement resolve identifiers
  from that table: the results are those obtained from a store holding just this
  table under any other session key, in a state whose other fields, the last seen
  session included, are arbitrary. No session identifier takes part in the lookup.
\<close>

theorem gemini_lookup_ignores_session:
  assumes "googleToolCallMapping state = pre @ (key, table) # post"
    and "\<forall>(k, m)\<in>set pre. m = []"
    and "table \<noteq> []"
  shows "extractToolOutputs Gemini data state
           = extractToolOutputs Gemini data (other\<lparr> googleToolCallMapping := [(key', table)] \<rparr>)
       \<and> replaceToolOutput body Gemini toolId newContent state
           = replaceToolOutput body Gemini toolId newContent
               (other\<lparr> googleToolCallMapping := [(key', table)] \<rparr>)"
proof -
  from assms have "firstNonEmpty (googleToolCallMapping state) = Some table"
    by (simp add: firstNonEmpty_append)
  moreover from assms(3)
  have "firstNonEmpty (googleToolCallMapping (other\<lparr> googleToolCallMapping := [(key', table)] \<rparr>))
          = Some table"
    by simp
  ultimately show ?thesis
    by (simp add: replaceToolOutput_def)
qed

theorem gemini_lookup_ignores_session_witness:
  "googleToolCallMapping otherSessionState = [(''ses_A'', [])] @ (''ses_B'', exampleTable) # []
   \<and> lastSeenSessionId otherSessionState = Some ''ses_C''
   \<and> extractToolOutputs Gemini exampleContents otherSessionState
       = extractToolOutputs Gemini exampleContents
           (createPluginState\<lparr> googleToolCallMapping := [(''ses_C'', exampleTable)] \<rparr>)
   \<and> replaceToolOutput geminiBody Gemini ''ID2'' ''pruned'' otherSessionState
       = replaceToolOutput geminiBody Gemini ''ID2'' ''pruned''
           (createPluginState\<lparr> googleToolCallMapping := [(''ses_C'', exampleTable)] \<rparr>)
   \<and> map_sum id (map id_str) (extractToolOutputs Gemini exampleContents otherSessionState)
       = Inr [''id1'', ''id2'', ''id3'']"
proof -
  have store: "googleToolCallMapping otherSessionState
                 = [(''ses_A'', [])] @ (''ses_B'', exampleTable) # []"
    by (simp add: otherSessionState_def)
  have pre: "\<forall>(k, m)\<in>set [(''ses_A'', ([] :: (string \<times> string) list))]. m = []"
    by simp
  have table: "exampleTable \<noteq> []"
    by (simp add: exampleTable_def)
  have last: "lastSeenSessionId otherSessionState = Some ''ses_C''"
    by (simp add: otherSessionState_def)
  have ids: "map_sum id (map id_str) (extractToolOutputs Gemini exampleContents otherSessionState)
       = Inr [''id1'', ''id2'', ''id3'']"
    by (simp add: otherSessionState_def exampleTable_def exampleContents_def
        functionResponsePart_def recoveredId_def geminiContent_def run_simps)
  from gemini_lookup_ignores_session [where data = exampleContents and other = createPluginState
      and key' = "''ses_C''" and body = geminiBody and toolId = "''ID2''"
      and newContent = "''pruned''", OF store pre table]
    store last ids
  show ?thesis
    by blast
qed

section \<open>Session change\<close>

lemma rebuildMapping_store:
  "googleToolCallMapping (rebuildMapping client sid state) = googleToolCallMapping state
   \<or> (\<exists>table. googleToolCallMapping (rebuildMapping client sid state)
                 = AList.update sid table (googleToolCallMapping state))"
  by (auto simp: rebuildMapping_def split: option.splits sum.splits json.splits)

lemma rebuildMapping_store_cong:
  "googleToolCallMapping s = googleToolCallMapping t \<Longrightarrow>
   googleToolCallMapping (rebuildMapping client sid s)
     = googleToolCallMapping (rebuildMapping client sid t)"
  by (auto simp: rebuildMapping_def split: option.splits sum.splits json.splits)

lemma chatParamsHandler_store:
  "googleToolCallMapping (chatParamsHandler client state input)
     = googleToolCallMapping
         (if providerOf input = JStr ''google'' \<or> providerOf input = JStr ''google-vertex''
          then rebuildMapping client (sessionID input)
                 (state\<lparr> googleToolCallMapping :=
                     if sessionChanged state (sessionID input) then []
                     else googleToolCallMapping state \<rparr>)
          else state\<lparr> googleToolCallMapping :=
                     if sessionChanged state (sessionID input) then []
                     else googleToolCallMapping state \<rparr>)"
  by (auto simp: chatParamsHandler_def Let_def intro: rebuildMapping_store_cong)

text \<open>
  C4. When the last seen session is a session \<open>a\<close> (an identifier the guard takes
  for one: \<^verbatim>\<open>state.lastSeenSessionId &&\<close> is a truthiness test, so it is a non-empty
  string) and a chat.params event of another session is processed, the store is
  cleared before anything is rebuilt: afterwards the store is what the event would
  have left of an empty store, it has no mapping under \<open>a\<close> nor under any key other
  than the new session, and the new session is the last seen one, so that a later
  request of session \<open>a\<close> finds no mapping of its own.
\<close>

theorem session_change_clears_store:
  assumes "lastSeenSessionId state = Some a" and "a \<noteq> []" and "sessionID input \<noteq> a"
  shows "googleToolCallMapping (chatParamsHandler client state input)
           = googleToolCallMapping
               (chatParamsHandler client (state\<lparr> googleToolCallMapping := [] \<rparr>) input)
       \<and> map_of (googleToolCallMapping (chatParamsHandler client state input)) a = None
       \<and> fst ` set (googleToolCallMapping (chatParamsHandler client state input))
           \<subseteq> {sessionID input}
       \<and> lastSeenSessionId (chatParamsHandler client state input) = Some (sessionID input)"
proof -
  let ?cleared = "state\<lparr> googleToolCallMapping := [] \<rparr>"
  from assms have changed: "sessionChanged state (sessionID input)"
    by (auto simp: sessionChanged_def)
  from assms have changed': "sessionChanged ?cleared (sessionID input)"
    by (auto simp: sessionChanged_def)
  have same: "googleToolCallMapping (chatParamsHandler client state input)
           = googleToolCallMapping (chatParamsHandler client ?cleared input)"
    using changed changed'
    by (auto simp: chatParamsHandler_store intro: rebuildMapping_store_cong)
  have keys: "fst ` set (googleToolCallMapping (chatParamsHandler client state input))
           \<subseteq> {sessionID input}"
  proof (cases "providerOf input = JStr ''google'' \<or> providerOf input = JStr ''google-vertex''")
    case False
    with changed show ?thesis
      by (simp add: chatParamsHandler_store)
  next
    case True
    with changed have "googleToolCallMapping (chatParamsHandler client state input)
        = googleToolCallMapping (rebuildMapping client (sessionID input) ?cleared)"
      by (simp add: chatParamsHandler_store)
    with rebuildMapping_store [of client "sessionID input" ?cleared] show ?thesis
      by auto
  qed
  with assms(3) have none: "map_of (googleToolCallMapping (chatParamsHandler client state input)) a = None"
    by (auto simp: map_of_eq_None_iff)
  have "lastSeenSessionId (chatParamsHandler client state input) = Some (sessionID input)"
    by (auto simp: chatParamsHandler_def Let_def rebuildMapping_def
        split: option.splits sum.splits json.splits)
  with same keys none show ?thesis
    by blast
qed

theorem session_change_clears_store_witness:
  "map_of (googleToolCallMapping sessionAState) ''ses_A'' = Some exampleTable
   \<and> googleToolCallMapping (chatParamsHandler offlineClient sessionAState (plainInput ''ses_B'')) = []
   \<and> lastSeenSessionId (chatParamsHandler offlineClient sessionAState (plainInput ''ses_B''))
       = Some ''ses_B''
   \<and> map_of (googleToolCallMapping
         (chatParamsHandler offlineClient
            (chatParamsHandler offlineClient sessionAState (plainInput ''ses_B''))
            (plainInput ''ses_A''))) ''ses_A'' = None"
proof -
  have last: "lastSeenSessionId sessionAState = Some ''ses_A''"
    by (simp add: sessionAState_def)
  have before: "map_of (googleToolCallMapping sessionAState) ''ses_A'' = Some exampleTable"
    by (simp add: sessionAState_def)
  have empty: "googleToolCallMapping
        (chatParamsHandler offlineClient (sessionAState\<lparr> googleToolCallMapping := [] \<rparr>)
           (plainInput ''ses_B'')) = []"
    by (simp add: chatParamsHandler_store plainInput_def providerOf_def optProp_def orElse_def)
  have again: "map_of (googleToolCallMapping
         (chatParamsHandler offlineClient
            (chatParamsHandler offlineClient sessionAState (plainInput ''ses_B''))
            (plainInput ''ses_A''))) ''ses_A'' = None"
    by (simp add: chatParamsHandler_store plainInput_def providerOf_def optProp_def orElse_def
        sessionChanged_def sessionAState_def)
  from session_change_clears_store [where input = "plainInput ''ses_B''"
      and client = offlineClient, OF last]
  have "googleToolCallMapping (chatParamsHandler offlineClient sessionAState (plainInput ''ses_B''))
           = googleToolCallMapping
               (chatParamsHandler offlineClient (sessionAState\<lparr> googleToolCallMapping := [] \<rparr>)
                  (plainInput ''ses_B''))"
    and "lastSeenSessionId (chatParamsHandler offlineClient sessionAState (plainInput ''ses_B''))
       = Some ''ses_B''"
    by (simp_all add: plainInput_def)
  with before empty again show ?thesis
    by simp
qed

section \<open>Appending and injecting user turns\<close>

lemma getDataArray_JArr:
  "getDataArray f body = Inr (JArr turns) \<Longrightarrow>
   \<exists>kvs. body = JObj kvs \<and> map_of kvs (dataKey f) = Some (JArr turns)"
  by (cases body) (auto simp: getDataArray_def readProp_def split: option.splits)

lemma setProp_same:
  assumes "getDataArray f body = Inr (JArr turns)"
  shows "setProp body (dataKey f) (JArr turns) = body"
proof -
  from getDataArray_JArr [OF assms] obtain kvs where
    "body = JObj kvs" and "map_of kvs (dataKey f) = Some (JArr turns)"
    by blast
  then show ?thesis
    by (simp add: update_triv)
qed

lemma getDataArray_setProp:
  assumes "getDataArray f body = Inr (JArr turns)"
  shows "getDataArray f (setProp body (dataKey f) v) = Inr v"
proof -
  from getDataArray_JArr [OF assms] obtain kvs where "body = JObj kvs"
    by blast
  then show ?thesis
    by (simp add: getDataArray_def readProp_def update_conv')
qed

lemma setProp_setProp:
  assumes "getDataArray f body = Inr (JArr turns)"
  shows "setProp (setProp body (dataKey f) v) (dataKey f) w = setProp body (dataKey f) w"
proof -
  from getDataArray_JArr [OF assms] obtain kvs where "body = JObj kvs"
    by blast
  then show ?thesis
    by simp
qed

lemma injectLoop_skip:
  "m \<le> n \<Longrightarrow> \<forall>i. m \<le> i \<and> i < n \<longrightarrow> isUserItem f (turns ! i) = Inr False \<Longrightarrow>
   injectLoop f text turns n = injectLoop f text turns m"
proof (induction n)
  case 0
  then show ?case by simp
next
  case (Suc n)
  show ?case
  proof (cases "m = Suc n")
    case True
    then show ?thesis by simp
  next
    case False
    with Suc.prems have "m \<le> n" and "isUserItem f (turns ! n) = Inr False"
      by auto
    with Suc show ?thesis
      by simp
  qed
qed

lemma injectLoop_hit:
  "isUserItem f (turns ! i) = Inr True \<Longrightarrow>
   injectLoop f text turns (Suc i) = Inr (True, turns[i := injectInto f text (turns ! i)])"
  by simp

lemma injectLoop_last_user:
  assumes "isUserItem f user = Inr True"
    and "\<forall>t\<in>set post. isUserItem f t = Inr False"
  shows "injectLoop f text (pre @ user # post) (length (pre @ user # post))
           = Inr (True, pre @ injectInto f text user # post)"
proof -
  let ?turns = "pre @ user # post"
  have "\<forall>i. Suc (length pre) \<le> i \<and> i < length ?turns \<longrightarrow> isUserItem f (?turns ! i) = Inr False"
  proof (intro allI impI)
    fix i
    assume i: "Suc (length pre) \<le> i \<and> i < length ?turns"
    then have "?turns ! i = post ! (i - Suc (length pre))"
      by (simp add: nth_append nth_Cons')
    moreover from i have "i - Suc (length pre) < length post"
      by auto
    ultimately show "isUserItem f (?turns ! i) = Inr False"
      using assms(2) by simp
  qed
  then have "injectLoop f text ?turns (length ?turns) = injectLoop f text ?turns (Suc (length pre))"
    by (intro injectLoop_skip) simp_all
  also have "\<dots> = Inr (True, ?turns[length pre := injectInto f text (?turns ! length pre)])"
    using assms(1) by (intro injectLoop_hit) simp
  also have "?turns[length pre := injectInto f text (?turns ! length pre)]
               = pre @ injectInto f text user # post"
    by simp
  finally show ?thesis .
qed

lemma injectLoop_no_user:
  assumes "\<forall>t\<in>set turns. isUserItem f t = Inr False"
  shows "injectLoop f text turns (length turns) = Inr (False, turns)"
proof -
  from assms have "injectLoop f text turns (length turns) = injectLoop f text turns 0"
    by (intro injectLoop_skip) simp_all
  then show ?thesis
    by simp
qed

lemma isUserItem_JObj: "isUserItem f item = Inr True \<Longrightarrow> \<exists>kvs. item = JObj kvs"
  by (cases f; cases item) (auto simp: readProp_def)

text \<open>
  C6. The injection scans the turn array from the end: when \<open>user\<close> is recognized
  as a user turn and no turn after it is, \<open>user\<close> is the turn modified and the call
  returns true; when no turn of the array is recognized as a user turn the call
  returns false and the body is as before. The Responses format recognizes a turn
  only if its type is \<^verbatim>\<open>message\<close> and its role is \<^verbatim>\<open>user\<close>. The text is appended
  to a string content after a blank line and to an array content as one more text
  part (for Gemini, to the parts array).
\<close>

theorem inject_targets_last_user_turn:
  assumes "getDataArray f body = Inr (JArr turns)"
  shows "(\<forall>pre user post.
            turns = pre @ user # post \<and> isUserItem f user = Inr True
            \<and> (\<forall>t\<in>set post. isUserItem f t = Inr False)
            \<longrightarrow> injectIntoLastUserMessage body f text
                  = Inr (True, setProp body (dataKey f) (JArr (pre @ injectInto f text user # post))))
       \<and> ((\<forall>t\<in>set turns. isUserItem f t = Inr False)
            \<longrightarrow> injectIntoLastUserMessage body f text = Inr (False, body))
       \<and> (\<forall>item. isUserItem OpenaiResponses item = Inr True
            \<longleftrightarrow> \<not> nullish item \<and> get item ''type'' = JStr ''message''
                \<and> get item ''role'' = JStr ''user'')
       \<and> (\<forall>user s. f \<noteq> Gemini \<and> isUserItem f user = Inr True \<and> get user ''content'' = JStr s
            \<longrightarrow> get (injectInto f text user) ''content'' = JStr (s @ [CHR 0x0A, CHR 0x0A] @ text))
       \<and> (\<forall>user parts. f \<noteq> Gemini \<and> isUserItem f user = Inr True
              \<and> get user ''content'' = JArr parts
            \<longrightarrow> get (injectInto f text user) ''content''
                  = JArr (parts @ [JObj [(''type'',
                        JStr (if f = OpenaiResponses then ''input_text'' else ''text'')),
                      (''text'', JStr text)]]))
       \<and> (\<forall>user parts. f = Gemini \<and> isUserItem f user = Inr True \<and> get user ''parts'' = JArr parts
            \<longrightarrow> get (injectInto f text user) ''parts'' = JArr (parts @ [JObj [(''text'', JStr text)]]))"
proof (intro conjI allI impI)
  fix pre user post
  assume "turns = pre @ user # post \<and> isUserItem f user = Inr True
            \<and> (\<forall>t\<in>set post. isUserItem f t = Inr False)"
  with assms injectLoop_last_user [of f user post "text" pre]
  show "injectIntoLastUserMessage body f text
          = Inr (True, setProp body (dataKey f) (JArr (pre @ injectInto f text user # post)))"
    by (simp add: injectIntoLastUserMessage_def)
next
  assume "\<forall>t\<in>set turns. isUserItem f t = Inr False"
  with assms injectLoop_no_user [of turns f "text"] setProp_same [OF assms]
  show "injectIntoLastUserMessage body f text = Inr (False, body)"
    by (simp add: injectIntoLastUserMessage_def)
next
  fix item
  show "isUserItem OpenaiResponses item = Inr True
        \<longleftrightarrow> \<not> nullish item \<and> get item ''type'' = JStr ''message''
            \<and> get item ''role'' = JStr ''user''"
    by (auto simp: readProp_def)
next
  fix user s
  assume a: "f \<noteq> Gemini \<and> isUserItem f user = Inr True \<and> get user ''content'' = JStr s"
  then obtain kvs where "user = JObj kvs"
    by (auto dest: isUserItem_JObj)
  with a show "get (injectInto f text user) ''content'' = JStr (s @ [CHR 0x0A, CHR 0x0A] @ text)"
    by (cases f) (simp_all add: appendToContent_def update_conv')
next
  fix user parts
  assume a: "f \<noteq> Gemini \<and> isUserItem f user = Inr True \<and> get user ''content'' = JArr parts"
  then obtain kvs where "user = JObj kvs"
    by (auto dest: isUserItem_JObj)
  with a show "get (injectInto f text user) ''content''
                  = JArr (parts @ [JObj [(''type'',
                        JStr (if f = OpenaiResponses then ''input_text'' else ''text'')),
                      (''text'', JStr text)]])"
    by (cases f) (simp_all add: appendToContent_def update_conv')
next
  fix user parts
  assume a: "f = Gemini \<and> isUserItem f user = Inr True \<and> get user ''parts'' = JArr parts"
  then obtain kvs where "user = JObj kvs"
    by (auto dest: isUserItem_JObj)
  with a show "get (injectInto f text user) ''parts'' = JArr (parts @ [JObj [(''text'', JStr text)]])"
    by (simp add: update_conv')
qed

theorem inject_targets_last_user_turn_witness:
  "getDataArray OpenaiChat chatBody = Inr (JArr chatTurns)
   \<and> injectIntoLastUserMessage chatBody OpenaiChat ''be brief''
       = Inr (True,
           JObj [(''model'', JStr ''gpt''),
                 (''messages'',
                    JArr [JObj [(''role'', JStr ''user''),
                                (''content'', JStr (''list the files'' @ [CHR 0x0A, CHR 0x0A] @ ''be brief''))],
                          JObj [(''role'', JStr ''assistant''), (''content'', JNull)],
                          JObj [(''role'', JStr ''tool''), (''tool_call_id'', JStr ''Call_A1''),
                                (''content'', JStr ''a.txt'')]])])"
proof -
  let ?user = "JObj [(''role'', JStr ''user''), (''content'', JStr ''list the files'')]"
  let ?post = "[JObj [(''role'', JStr ''assistant''), (''content'', JNull)],
                JObj [(''role'', JStr ''tool''), (''tool_call_id'', JStr ''Call_A1''),
                      (''content'', JStr ''a.txt'')]]"
  have arr: "getDataArray OpenaiChat chatBody = Inr (JArr chatTurns)"
    by (simp add: chatBody_def getDataArray_def readProp_def)
  have shape: "chatTurns = [] @ ?user # ?post \<and> isUserItem OpenaiChat ?user = Inr True
      \<and> (\<forall>t\<in>set ?post. isUserItem OpenaiChat t = Inr False)"
    by (simp add: chatTurns_def readProp_def)
  from inject_targets_last_user_turn [OF arr, of "''be brief''"] shape
  have "injectIntoLastUserMessage chatBody OpenaiChat ''be brief''
          = Inr (True, setProp chatBody (dataKey OpenaiChat)
                   (JArr ([] @ injectInto OpenaiChat ''be brief'' ?user # ?post)))"
    by blast
  with arr show ?thesis
    by (simp add: chatBody_def appendToContent_def)
qed

text \<open>
  C8. For each of the four formats and every body whose turn array exists,
  \<^verbatim>\<open>appendUserMessage\<close> returns true and appends one turn to the array; the format's
  own test takes that turn for a user turn; and a following
  \<^verbatim>\<open>injectIntoLastUserMessage\<close> returns true and modifies that last turn, which then
  ends with the injected text, and no other.
\<close>

theorem append_then_inject:
  assumes "getDataArray f body = Inr (JArr turns)"
  shows "appendUserMessage body f text
           = Inr (True, setProp body (dataKey f) (JArr (turns @ [newUserMessage f text])))
       \<and> getDataArray f (setProp body (dataKey f) (JArr (turns @ [newUserMessage f text])))
           = Inr (JArr (turns @ [newUserMessage f text]))
       \<and> isUserItem f (newUserMessage f text) = Inr True
       \<and> injectIntoLastUserMessage
            (setProp body (dataKey f) (JArr (turns @ [newUserMessage f text]))) f extra
           = Inr (True, setProp body (dataKey f)
                          (JArr (turns @ [injectInto f extra (newUserMessage f text)])))
       \<and> injectInto f extra (newUserMessage f text)
           = (case f of
                Gemini \<Rightarrow> JObj [(''role'', JStr ''user''),
                                 (''parts'', JArr [JObj [(''text'', JStr text)], JObj [(''text'', JStr extra)]])]
              | OpenaiResponses \<Rightarrow>
                  JObj [(''type'', JStr ''message''), (''role'', JStr ''user''),
                        (''content'', JStr (text @ [CHR 0x0A, CHR 0x0A] @ extra))]
              | _ \<Rightarrow> JObj [(''role'', JStr ''user''),
                            (''content'', JStr (text @ [CHR 0x0A, CHR 0x0A] @ extra))])"
proof -
  let ?new = "newUserMessage f text"
  let ?body1 = "setProp body (dataKey f) (JArr (turns @ [?new]))"
  have app: "appendUserMessage body f text = Inr (True, ?body1)"
    using assms by (simp add: appendUserMessage_def)
  have arr1: "getDataArray f ?body1 = Inr (JArr (turns @ [?new]))"
    using assms by (rule getDataArray_setProp)
  have user: "isUserItem f ?new = Inr True"
    by (cases f) (simp_all add: readProp_def)
  have "injectLoop f extra (turns @ ?new # []) (length (turns @ ?new # []))
          = Inr (True, turns @ injectInto f extra ?new # [])"
    using user by (intro injectLoop_last_user) simp_all
  moreover from assms obtain kvs where "body = JObj kvs"
    by (auto dest: getDataArray_JArr)
  ultimately have inj: "injectIntoLastUserMessage ?body1 f extra
           = Inr (True, setProp body (dataKey f) (JArr (turns @ [injectInto f extra ?new])))"
    using arr1 by (simp add: injectIntoLastUserMessage_def)
  have shape: "injectInto f extra ?new
           = (case f of
                Gemini \<Rightarrow> JObj [(''role'', JStr ''user''),
                                 (''parts'', JArr [JObj [(''text'', JStr text)], JObj [(''text'', JStr extra)]])]
              | OpenaiResponses \<Rightarrow>
                  JObj [(''type'', JStr ''message''), (''role'', JStr ''user''),
                        (''content'', JStr (text @ [CHR 0x0A, CHR 0x0A] @ extra))]
              | _ \<Rightarrow> JObj [(''role'', JStr ''user''),
                            (''content'', JStr (text @ [CHR 0x0A, CHR 0x0A] @ extra))])"
    by (cases f) (simp_all add: appendToContent_def)
  from app arr1 user inj shape show ?thesis
    by blast
qed

theorem append_then_inject_witness:
  "getDataArray Gemini geminiBody = Inr (JArr exampleContents)
   \<and> appendUserMessage geminiBody Gemini ''continue''
       = Inr (True, JObj [(''contents'',
                 JArr (exampleContents @
                   [JObj [(''role'', JStr ''user''),
                          (''parts'', JArr [JObj [(''text'', JStr ''continue'')]])]]))])
   \<and> injectIntoLastUserMessage
        (JObj [(''contents'',
                 JArr (exampleContents @
                   [JObj [(''role'', JStr ''user''),
                          (''parts'', JArr [JObj [(''text'', JStr ''continue'')]])]]))])
        Gemini ''be brief''
       = Inr (True, JObj [(''contents'',
                 JArr (exampleContents @
                   [JObj [(''role'', JStr ''user''),
                          (''parts'', JArr [JObj [(''text'', JStr ''continue'')],
                                            JObj [(''text'', JStr ''be brief'')]])]]))])"
proof -
  have arr: "getDataArray Gemini geminiBody = Inr (JArr exampleContents)"
    by (simp add: geminiBody_def getDataArray_def readProp_def)
  from append_then_inject [OF arr, of "''continue''" "''be brief''"] arr
  show ?thesis
    by (simp add: geminiBody_def)
qed

section \<open>Replacing a tool output\<close>

text \<open>Facts about property reads and writes that do not open the association list.\<close>

lemma isObject_setProp [simp]: "isObject (setProp v k x)"
  by (cases v) simp_all

lemma truthy_setProp [simp]: "truthy (setProp v k x)"
  by (cases v) simp_all

lemma get_isObject: "get v k \<noteq> JUndef \<Longrightarrow> isObject v"
  by (cases v) auto

lemma get_JStr_isObject: "get v k = JStr s \<Longrightarrow> isObject v"
  by (rule get_isObject [of v k]) simp

lemma get_JArr_isObject: "get v k = JArr xs \<Longrightarrow> isObject v"
  by (rule get_isObject [of v k]) simp

lemma truthy_get_isObject: "truthy (get v k) \<Longrightarrow> isObject v"
  by (rule get_isObject [of v k]) auto

lemma get_setProp: "isObject v \<Longrightarrow> get (setProp v k x) k' = (if k' = k then x else get v k')"
  by (cases v) (simp_all add: update_conv')

lemma get_setProp_same [simp]: "get (setProp v k x) k = x"
  by (cases v) (simp_all add: update_conv')

lemma get_setProp_other: "isObject v \<Longrightarrow> k' \<noteq> k \<Longrightarrow> get (setProp v k x) k' = get v k'"
  by (simp add: get_setProp)

lemma setProp_twice: "isObject v \<Longrightarrow> setProp (setProp v k x) k y = setProp v k y"
  by (cases v) simp_all

lemma setProp_get: "get v k = y \<Longrightarrow> y \<noteq> JUndef \<Longrightarrow> setProp v k y = v"
  by (cases v) (auto simp: update_triv split: option.splits)

lemma optToLowerCase_lowerOf: "optToLowerCase v = Inr w \<Longrightarrow> w = lowerOf v"
  by (cases v) (auto simp: lowerOf_def)

lemma lowerOf_JStr_defined: "lowerOf v = JStr s \<Longrightarrow> v \<noteq> JUndef"
  by (cases v) (auto simp: lowerOf_def)

lemma mapFlag_frame:
  assumes "mapFlag f xs = Inr (b, ys)"
    and "\<And>x c y. f x = Inr (c, y) \<Longrightarrow> erase y = erase x \<and> (\<not> c \<longrightarrow> y = x)"
  shows "map erase ys = map erase xs \<and> (\<not> b \<longrightarrow> ys = xs)"
  using assms(1)
proof (induction xs arbitrary: b ys)
  case Nil
  then show ?case by simp
next
  case (Cons x xs)
  then obtain c y d zs where
    x: "f x = Inr (c, y)" and xs: "mapFlag f xs = Inr (d, zs)"
    and b: "b = (c \<or> d)" and ys: "ys = y # zs"
    by (auto simp: andThen_eq_Inr)
  from assms(2) [OF x] Cons.IH [OF xs] b ys show ?case
    by auto
qed

lemma chatReplacePart_frame:
  assumes "chatReplacePart lid new part = Inr (c, part')"
  shows "eraseChatPart lid part' = eraseChatPart lid part \<and> (\<not> c \<longrightarrow> part' = part)"
proof (cases "get part ''type'' = JStr ''tool_result''")
  case False
  with assms have "part' = part" and "\<not> c"
    by (auto simp: chatReplacePart_def split: if_splits)
  then show ?thesis by simp
next
  case True
  then have obj: "isObject part"
    by (rule get_JStr_isObject)
  from assms True obtain i where i: "optToLowerCase (get part ''tool_use_id'') = Inr i"
    and res: "(c, part') = (if i = JStr lid then (True, setProp part ''content'' (JStr new))
                            else (False, part))"
    by (auto simp: chatReplacePart_def andThen_eq_Inr split: if_splits)
  from i have low: "i = lowerOf (get part ''tool_use_id'')"
    by (rule optToLowerCase_lowerOf)
  show ?thesis
  proof (cases "i = JStr lid")
    case False
    with res show ?thesis by simp
  next
    case hit: True
    with res have c: "c" and p': "part' = setProp part ''content'' (JStr new)"
      by simp_all
    from obj True have "get part' ''type'' = JStr ''tool_result''"
      by (simp add: p' get_setProp_other)
    moreover from obj have "get part' ''tool_use_id'' = get part ''tool_use_id''"
      by (simp add: p' get_setProp_other)
    ultimately have "eraseChatPart lid part' = setProp part' ''content'' JUndef"
      using hit low by (simp add: eraseChatPart_def)
    also have "\<dots> = setProp part ''content'' JUndef"
      using obj by (simp add: p' setProp_twice)
    also have "\<dots> = eraseChatPart lid part"
      using True hit low by (simp add: eraseChatPart_def)
    finally show ?thesis
      using c by simp
  qed
qed

lemma chatReplaceTurn_frame:
  assumes "chatReplaceTurn lid new m = Inr (c, m')"
  shows "eraseChatTurn lid m' = eraseChatTurn lid m \<and> (\<not> c \<longrightarrow> m' = m)"
proof -
  from assms have nn: "\<not> nullish m"
    by (auto simp: chatReplaceTurn_def split: if_splits)
  consider (tool) "get m ''role'' = JStr ''tool''"
    | (user) "get m ''role'' = JStr ''user''"
    | (other) "get m ''role'' \<noteq> JStr ''tool''" "get m ''role'' \<noteq> JStr ''user''"
    by blast
  then show ?thesis
  proof cases
    case tool
    then have obj: "isObject m"
      by (rule get_JStr_isObject)
    from assms tool nn obtain i where i: "optToLowerCase (get m ''tool_call_id'') = Inr i"
      and res: "(c, m') = (i = JStr lid, if i = JStr lid then setProp m ''content'' (JStr new) else m)"
      by (auto simp: chatReplaceTurn_def andThen_eq_Inr)
    from i have low: "i = lowerOf (get m ''tool_call_id'')"
      by (rule optToLowerCase_lowerOf)
    show ?thesis
    proof (cases "i = JStr lid")
      case False
      with res show ?thesis by simp
    next
      case hit: True
      with res have c: "c" and m': "m' = setProp m ''content'' (JStr new)"
        by simp_all
      from obj tool hit low have "eraseChatTurn lid m' = setProp m ''content'' JUndef"
        by (simp add: m' eraseChatTurn_def get_setProp_other setProp_twice)
      also from tool hit low have "\<dots> = eraseChatTurn lid m"
        by (simp add: eraseChatTurn_def)
      finally show ?thesis
        using c by simp
    qed
  next
    case user
    then have obj: "isObject m"
      by (rule get_JStr_isObject)
    show ?thesis
    proof (cases "isArray (get m ''content'')")
      case True
      then obtain parts where parts: "get m ''content'' = JArr parts"
        by (cases "get m ''content''") auto
      with assms user nn obtain modified newArr where
        mf: "mapFlag (chatReplacePart lid new) parts = Inr (modified, newArr)"
        and res: "(c, m') = (if modified then (True, setProp m ''content'' (JArr newArr)) else (False, m))"
        by (auto simp: chatReplaceTurn_def andThen_eq_Inr split: if_splits)
      from mapFlag_frame [OF mf, of "eraseChatPart lid"] chatReplacePart_frame
      have same: "map (eraseChatPart lid) newArr = map (eraseChatPart lid) parts"
        by blast
      show ?thesis
      proof (cases modified)
        case False
        with res show ?thesis by simp
      next
        case True
        with res have c: "c" and m': "m' = setProp m ''content'' (JArr newArr)"
          by simp_all
        from obj user have "eraseChatTurn lid m'
            = setProp m ''content'' (JArr (map (eraseChatPart lid) newArr))"
          by (simp add: m' eraseChatTurn_def get_setProp_other setProp_twice)
        also from user parts same have "\<dots> = eraseChatTurn lid m"
          by (simp add: eraseChatTurn_def)
        finally show ?thesis
          using c by simp
      qed
    next
      case False
      with assms user nn have "m' = m" and "\<not> c"
        by (cases "get m ''content''"; auto simp: chatReplaceTurn_def)+
      then show ?thesis by simp
    qed
  next
    case other
    with assms nn have "m' = m" and "\<not> c"
      by (auto simp: chatReplaceTurn_def)
    then show ?thesis by simp
  qed
qed

lemma responsesReplaceItem_frame:
  assumes "responsesReplaceItem lid new item = Inr (c, item')"
  shows "eraseResponsesItem lid item' = eraseResponsesItem lid item \<and> (\<not> c \<longrightarrow> item' = item)"
proof (cases "get item ''type'' = JStr ''function_call_output''")
  case False
  with assms have "item' = item" and "\<not> c"
    by (auto simp: responsesReplaceItem_def split: if_splits)
  then show ?thesis by simp
next
  case True
  then have obj: "isObject item"
    by (rule get_JStr_isObject)
  from assms True obtain i where i: "optToLowerCase (get item ''call_id'') = Inr i"
    and res: "(c, item') = (if i = JStr lid then (True, setProp item ''output'' (JStr new))
                            else (False, item))"
    by (auto simp: responsesReplaceItem_def andThen_eq_Inr split: if_splits)
  from i have low: "i = lowerOf (get item ''call_id'')"
    by (rule optToLowerCase_lowerOf)
  show ?thesis
  proof (cases "i = JStr lid")
    case False
    with res show ?thesis by simp
  next
    case hit: True
    with res have c: "c" and i': "item' = setProp item ''output'' (JStr new)"
      by simp_all
    from obj True hit low have "eraseResponsesItem lid item' = setProp item ''output'' JUndef"
      by (simp add: i' eraseResponsesItem_def get_setProp_other setProp_twice)
    also from True hit low have "\<dots> = eraseResponsesItem lid item"
      by (simp add: eraseResponsesItem_def)
    finally show ?thesis
      using c by simp
  qed
qed

lemma bedrockReplaceBlock_frame:
  assumes "bedrockReplaceBlock lid new block = Inr (c, block')"
  shows "eraseBedrockBlock lid block' = eraseBedrockBlock lid block \<and> (\<not> c \<longrightarrow> block' = block)
       \<and> (c \<longrightarrow> get (get block' ''toolResult'') ''content'' = JArr [JObj [(''text'', JStr new)]])"
proof (cases "truthy (get block ''toolResult'')")
  case False
  with assms have "block' = block" and "\<not> c"
    by (auto simp: bedrockReplaceBlock_def split: if_splits)
  then show ?thesis by simp
next
  case True
  then have obj: "isObject block"
    by (rule truthy_get_isObject)
  from assms True obtain i where
    i: "optToLowerCase (get (get block ''toolResult'') ''toolUseId'') = Inr i"
    and res: "(c, block') =
        (if i = JStr lid
         then (True, setProp block ''toolResult''
                 (setProp (get block ''toolResult'') ''content'' (JArr [JObj [(''text'', JStr new)]])))
         else (False, block))"
    by (auto simp: bedrockReplaceBlock_def andThen_eq_Inr split: if_splits)
  from i have low: "i = lowerOf (get (get block ''toolResult'') ''toolUseId'')"
    by (rule optToLowerCase_lowerOf)
  show ?thesis
  proof (cases "i = JStr lid")
    case False
    with res show ?thesis by simp
  next
    case hit: True
    with low have "lowerOf (get (get block ''toolResult'') ''toolUseId'') = JStr lid"
      by simp
    then have "get (get block ''toolResult'') ''toolUseId'' \<noteq> JUndef"
      by (rule lowerOf_JStr_defined)
    then have tr: "isObject (get block ''toolResult'')"
      by (rule get_isObject)
    from res hit have c: "c"
      and b': "block' = setProp block ''toolResult''
                 (setProp (get block ''toolResult'') ''content'' (JArr [JObj [(''text'', JStr new)]]))"
      by simp_all
    from obj tr hit low have "eraseBedrockBlock lid block'
        = setProp block ''toolResult'' (setProp (get block ''toolResult'') ''content'' JUndef)"
      by (simp add: b' eraseBedrockBlock_def get_setProp_other setProp_twice)
    also from True hit low have "\<dots> = eraseBedrockBlock lid block"
      by (simp add: eraseBedrockBlock_def)
    finally show ?thesis
      using c by (simp add: b')
  qed
qed

lemma bedrockReplaceTurn_frame:
  assumes "bedrockReplaceTurn lid new m = Inr (c, m')"
  shows "eraseBedrockTurn lid m' = eraseBedrockTurn lid m \<and> (\<not> c \<longrightarrow> m' = m)"
proof (cases "get m ''role'' = JStr ''user'' \<and> isArray (get m ''content'')")
  case False
  with assms have "m' = m" and "\<not> c"
    by (cases "get m ''content''"; auto simp: bedrockReplaceTurn_def split: if_splits)+
  then show ?thesis by simp
next
  case True
  then have user: "get m ''role'' = JStr ''user''"
    by simp
  then have obj: "isObject m"
    by (rule get_JStr_isObject)
  from True obtain blocks where blocks: "get m ''content'' = JArr blocks"
    by (cases "get m ''content''") auto
  with assms user obtain modified newArr where
    bl: "mapFlag (bedrockReplaceBlock lid new) blocks = Inr (modified, newArr)"
    and res: "(c, m') = (if modified then (True, setProp m ''content'' (JArr newArr)) else (False, m))"
    by (auto simp: bedrockReplaceTurn_def andThen_eq_Inr split: if_splits)
  from mapFlag_frame [OF bl, of "eraseBedrockBlock lid"] bedrockReplaceBlock_frame
  have same: "map (eraseBedrockBlock lid) newArr = map (eraseBedrockBlock lid) blocks"
    by blast
  show ?thesis
  proof (cases modified)
    case False
    with res show ?thesis by simp
  next
    case True
    with res have c: "c" and m': "m' = setProp m ''content'' (JArr newArr)"
      by simp_all
    from obj user have "eraseBedrockTurn lid m'
        = setProp m ''content'' (JArr (map (eraseBedrockBlock lid) newArr))"
      by (simp add: m' eraseBedrockTurn_def get_setProp_other setProp_twice)
    also from user blocks same have "\<dots> = eraseBedrockTurn lid m"
      by (simp add: eraseBedrockTurn_def)
    finally show ?thesis
      using c by simp
  qed
qed

lemma geminiReplaceParts_Cons:
  assumes "geminiReplaceParts pm lid new counters (part # parts) = Inr (counters', b, parts')"
  shows "\<exists>hit part1 modified rest.
           b = (hit \<or> modified) \<and> parts' = part1 # rest
         \<and> (case countedName part of
               None \<Rightarrow> \<not> hit \<and> part1 = part
                 \<and> geminiReplaceParts pm lid new counters parts = Inr (counters', modified, rest)
             | Some fname \<Rightarrow>
                 hit = mappedIdMatches pm fname (counterOf counters fname) lid
                 \<and> part1 = (if hit then geminiNewPart new part else part)
                 \<and> geminiReplaceParts pm lid new
                      (counters(fname \<mapsto> counterOf counters fname + 1)) parts
                    = Inr (counters', modified, rest))"
proof -
  from assms have nn: "\<not> nullish part"
    by (auto split: if_splits)
  show ?thesis
  proof (cases "countedName part")
    case None
    have head: "(if truthy (get part ''functionResponse'')
           then andThen (optToLowerCase (get (get part ''functionResponse'') ''name'')) (\<lambda>funcName.
                  (case funcName of
                     JStr fname \<Rightarrow>
                       (if fname \<noteq> []
                        then Inr (counters(fname \<mapsto> counterOf counters fname + 1),
                                  if mappedIdMatches pm fname (counterOf counters fname) lid
                                  then (True, geminiNewPart new part)
                                  else (False, part))
                        else Inr (counters, False, part))
                   | _ \<Rightarrow> Inr (counters, False, part)))
           else Inr (counters, False, part)) = Inr (counters, False, part)"
    proof (cases "truthy (get part ''functionResponse'')")
      case False
      then show ?thesis by simp
    next
      case True
      with assms nn obtain funcName where
        fn: "optToLowerCase (get (get part ''functionResponse'') ''name'') = Inr funcName"
        by (cases "optToLowerCase (get (get part ''functionResponse'') ''name'')") simp_all
      then have "lowerOf (get (get part ''functionResponse'') ''name'') = funcName"
        by (auto dest: optToLowerCase_lowerOf)
      with None True have "\<not> (\<exists>fname. funcName = JStr fname \<and> fname \<noteq> [])"
        by (auto simp: countedName_def split: if_splits)
      with True fn show ?thesis
        by (cases funcName) auto
    qed
    with assms nn obtain r where
      r: "geminiReplaceParts pm lid new counters parts = Inr r"
      by (cases "geminiReplaceParts pm lid new counters parts") simp_all
    obtain c2 modified rest where r': "r = (c2, modified, rest)"
      by (cases r) auto
    from assms nn head r r' have "c2 = counters'" and "b = modified" and "parts' = part # rest"
      by simp_all
    with None r r' show ?thesis
      by (intro exI [of _ False] exI [of _ part] exI [of _ modified] exI [of _ rest]) simp
  next
    case (Some fname)
    then have t: "truthy (get part ''functionResponse'')"
      and low: "lowerOf (get (get part ''functionResponse'') ''name'') = JStr fname"
      and ne: "fname \<noteq> []"
      by (auto simp: countedName_def split: if_splits json.splits)
    from assms nn t obtain funcName where
      fn: "optToLowerCase (get (get part ''functionResponse'') ''name'') = Inr funcName"
      by (cases "optToLowerCase (get (get part ''functionResponse'') ''name'')") simp_all
    with low have fn': "optToLowerCase (get (get part ''functionResponse'') ''name'') = Inr (JStr fname)"
      by (auto dest: optToLowerCase_lowerOf)
    define hit where "hit = mappedIdMatches pm fname (counterOf counters fname) lid"
    from assms nn t fn' ne obtain r where
      r: "geminiReplaceParts pm lid new (counters(fname \<mapsto> counterOf counters fname + 1)) parts = Inr r"
      by (cases "geminiReplaceParts pm lid new
                   (counters(fname \<mapsto> counterOf counters fname + 1)) parts")
         (simp_all split: if_splits)
    obtain c2 modified rest where r': "r = (c2, modified, rest)"
      by (cases r) auto
    from assms nn t fn' ne r r'
    have "c2 = counters'" and "b = (hit \<or> modified)"
      and "parts' = (if hit then geminiNewPart new part else part) # rest"
      by (simp_all add: hit_def split: if_splits)
    with Some r r' hit_def show ?thesis
      by (intro exI [of _ hit] exI [of _ "if hit then geminiNewPart new part else part"]
          exI [of _ modified] exI [of _ rest]) simp
  qed
qed

lemma countedName_objects:
  assumes "countedName part = Some fname"
  shows "isObject part \<and> isObject (get part ''functionResponse'')
       \<and> truthy (get part ''functionResponse'')"
proof -
  from assms have t: "truthy (get part ''functionResponse'')"
    by (auto simp: countedName_def split: if_splits)
  with assms have "lowerOf (get (get part ''functionResponse'') ''name'') = JStr fname"
    by (auto simp: countedName_def split: json.splits if_splits)
  then have "get (get part ''functionResponse'') ''name'' \<noteq> JUndef"
    by (rule lowerOf_JStr_defined)
  then have "isObject (get part ''functionResponse'')"
    by (rule get_isObject)
  with t show ?thesis
    by (auto intro: truthy_get_isObject)
qed

lemma countedName_geminiNewPart:
  assumes "countedName part = Some fname"
  shows "countedName (geminiNewPart new part) = Some fname
       \<and> eraseResponse (geminiNewPart new part) = eraseResponse part"
proof -
  from countedName_objects [OF assms] have obj: "isObject part"
    and fr: "isObject (get part ''functionResponse'')"
    by simp_all
  from fr have name: "get (get (geminiNewPart new part) ''functionResponse'') ''name''
      = get (get part ''functionResponse'') ''name''"
    by (simp add: geminiNewPart_def get_setProp_other)
  have "truthy (get (geminiNewPart new part) ''functionResponse'')"
    by (simp add: geminiNewPart_def)
  with name assms have "countedName (geminiNewPart new part) = Some fname"
    by (simp add: countedName_def split: if_splits)
  moreover from obj fr have "eraseResponse (geminiNewPart new part) = eraseResponse part"
    by (simp add: eraseResponse_def geminiNewPart_def setProp_twice)
  ultimately show ?thesis
    by simp
qed

lemma geminiReplaceParts_frame:
  "geminiReplaceParts pm lid new counters parts = Inr (counters', b, parts') \<Longrightarrow>
   eraseGeminiParts pm lid counters parts' = eraseGeminiParts pm lid counters parts
   \<and> fst (eraseGeminiParts pm lid counters parts) = counters'
   \<and> (\<not> b \<longrightarrow> parts' = parts)"
proof (induction parts arbitrary: counters b parts')
  case Nil
  then show ?case by simp
next
  case (Cons part parts)
  from geminiReplaceParts_Cons [OF Cons.prems] obtain hit part1 modified rest where
    b: "b = (hit \<or> modified)" and parts': "parts' = part1 # rest"
    and step: "(case countedName part of
               None \<Rightarrow> \<not> hit \<and> part1 = part
                 \<and> geminiReplaceParts pm lid new counters parts = Inr (counters', modified, rest)
             | Some fname \<Rightarrow>
                 hit = mappedIdMatches pm fname (counterOf counters fname) lid
                 \<and> part1 = (if hit then geminiNewPart new part else part)
                 \<and> geminiReplaceParts pm lid new
                      (counters(fname \<mapsto> counterOf counters fname + 1)) parts
                    = Inr (counters', modified, rest))"
    by blast
  show ?case
  proof (cases "countedName part")
    case None
    with step have hit: "\<not> hit" and p1: "part1 = part"
      and rest: "geminiReplaceParts pm lid new counters parts = Inr (counters', modified, rest)"
      by simp_all
    from Cons.IH [OF rest] None hit p1 b parts' show ?thesis
      by (simp add: split_beta)
  next
    case (Some fname)
    define next_counters where "next_counters = counters(fname \<mapsto> counterOf counters fname + 1)"
    from Some step have hit: "hit = mappedIdMatches pm fname (counterOf counters fname) lid"
      and p1: "part1 = (if hit then geminiNewPart new part else part)"
      and rest: "geminiReplaceParts pm lid new next_counters parts = Inr (counters', modified, rest)"
      by (simp_all add: next_counters_def)
    from countedName_geminiNewPart [OF Some, of new] p1 Some
    have cn1: "countedName part1 = Some fname"
      by (simp split: if_splits)
    from countedName_geminiNewPart [OF Some, of new] p1
    have er1: "(if hit then eraseResponse part1 else part1) = (if hit then eraseResponse part else part)"
      by simp
    from Cons.IH [OF rest]
    have ih1: "eraseGeminiParts pm lid next_counters rest = eraseGeminiParts pm lid next_counters parts"
      and ih2: "fst (eraseGeminiParts pm lid next_counters parts) = counters'"
      and ih3: "\<not> modified \<Longrightarrow> rest = parts"
      by simp_all
    have new_eq: "eraseGeminiParts pm lid counters (part1 # rest)
        = (fst (eraseGeminiParts pm lid next_counters rest),
           (if hit then eraseResponse part1 else part1)
             # snd (eraseGeminiParts pm lid next_counters rest))"
      by (simp add: cn1 hit split_beta next_counters_def)
    have old_eq: "eraseGeminiParts pm lid counters (part # parts)
        = (fst (eraseGeminiParts pm lid next_counters parts),
           (if hit then eraseResponse part else part)
             # snd (eraseGeminiParts pm lid next_counters parts))"
      by (simp add: Some hit split_beta next_counters_def)
    from new_eq old_eq er1 ih1 have "eraseGeminiParts pm lid counters parts'
        = eraseGeminiParts pm lid counters (part # parts)"
      by (simp add: parts')
    moreover from old_eq ih2 have "fst (eraseGeminiParts pm lid counters (part # parts)) = counters'"
      by simp
    moreover from b p1 parts' ih3 have "\<not> b \<longrightarrow> parts' = part # parts"
      by simp
    ultimately show ?thesis
      by simp
  qed
qed

lemma geminiReplace_frame:
  "geminiReplace pm lid new counters data = Inr (b, data') \<Longrightarrow>
   eraseGemini pm lid counters data' = eraseGemini pm lid counters data
   \<and> (\<not> b \<longrightarrow> data' = data)"
proof (induction data arbitrary: counters b data')
  case Nil
  then show ?case by simp
next
  case (Cons c cs)
  from Cons.prems have nn: "\<not> nullish c"
    by (auto split: if_splits)
  show ?case
  proof (cases "isArray (get c ''parts'')")
    case False
    then have skip: "(case get c ''parts'' of
             JArr parts \<Rightarrow>
               andThen (geminiReplaceParts pm lid new counters parts)
                 (\<lambda>(counters', contentModified, newParts).
                    Inr (counters', contentModified,
                         if contentModified then setProp c ''parts'' (JArr newParts) else c))
           | _ \<Rightarrow> Inr (counters, False, c)) = Inr (counters, False, c)"
      by (cases "get c ''parts''") simp_all
    with Cons.prems nn obtain r where r: "geminiReplace pm lid new counters cs = Inr r"
      by (cases "geminiReplace pm lid new counters cs") simp_all
    obtain replaced cs' where r': "r = (replaced, cs')"
      by (cases r) auto
    from Cons.prems nn skip r r' have b: "b = replaced" and data': "data' = c # cs'"
      by simp_all
    from r r' have "geminiReplace pm lid new counters cs = Inr (replaced, cs')"
      by simp
    from Cons.IH [OF this] False b data' show ?thesis
      by (cases "get c ''parts''") auto
  next
    case True
    then obtain parts where parts: "get c ''parts'' = JArr parts"
      by (cases "get c ''parts''") auto
    then have obj: "isObject c"
      by (rule get_JArr_isObject)
    from Cons.prems nn parts obtain h where
      h: "geminiReplaceParts pm lid new counters parts = Inr h"
      by (cases "geminiReplaceParts pm lid new counters parts") simp_all
    obtain counters1 contentModified newParts where h': "h = (counters1, contentModified, newParts)"
      by (cases h) auto
    from Cons.prems nn parts h h' obtain r where
      r: "geminiReplace pm lid new counters1 cs = Inr r"
      by (cases "geminiReplace pm lid new counters1 cs") simp_all
    obtain replaced cs' where r': "r = (replaced, cs')"
      by (cases r) auto
    from Cons.prems nn parts h h' r r'
    have b: "b = (contentModified \<or> replaced)"
      and data': "data' = (if contentModified then setProp c ''parts'' (JArr newParts) else c) # cs'"
      by simp_all
    from h h' have "geminiReplaceParts pm lid new counters parts
        = Inr (counters1, contentModified, newParts)"
      by simp
    from geminiReplaceParts_frame [OF this]
    have e1: "eraseGeminiParts pm lid counters newParts = eraseGeminiParts pm lid counters parts"
      and e2: "fst (eraseGeminiParts pm lid counters parts) = counters1"
      and e3: "\<not> contentModified \<Longrightarrow> newParts = parts"
      by simp_all
    from r r' have "geminiReplace pm lid new counters1 cs = Inr (replaced, cs')"
      by simp
    from Cons.IH [OF this]
    have r1: "eraseGemini pm lid counters1 cs' = eraseGemini pm lid counters1 cs"
      and r2: "\<not> replaced \<Longrightarrow> cs' = cs"
      by simp_all
    have old_eq: "eraseGemini pm lid counters (c # cs)
        = setProp c ''parts'' (JArr (snd (eraseGeminiParts pm lid counters parts)))
            # eraseGemini pm lid counters1 cs"
      using parts e2 by (simp add: split_beta)
    show ?thesis
    proof (cases contentModified)
      case False
      with b data' r1 r2 parts e2 show ?thesis
        by (simp add: split_beta)
    next
      case True
      with obj parts have "get (setProp c ''parts'' (JArr newParts)) ''parts'' = JArr newParts"
        by simp
      then have "eraseGemini pm lid counters (setProp c ''parts'' (JArr newParts) # cs')
        = setProp (setProp c ''parts'' (JArr newParts)) ''parts''
              (JArr (snd (eraseGeminiParts pm lid counters newParts)))
            # eraseGemini pm lid (fst (eraseGeminiParts pm lid counters newParts)) cs'"
        by (simp add: split_beta)
      with obj e1 e2 r1 True b data' old_eq show ?thesis
        by (simp add: setProp_twice)
    qed
  qed
qed

lemma replaceLoop_frame:
  assumes "replaceLoop f lid new state turns = Inr (b, turns')"
  shows "eraseTurns f state lid turns' = eraseTurns f state lid turns \<and> (\<not> b \<longrightarrow> turns' = turns)"
proof (cases f)
  case OpenaiChat
  with assms mapFlag_frame [of "chatReplaceTurn lid new" turns b turns' "eraseChatTurn lid"]
    chatReplaceTurn_frame
  show ?thesis by auto
next
  case OpenaiResponses
  with assms mapFlag_frame [of "responsesReplaceItem lid new" turns b turns' "eraseResponsesItem lid"]
    responsesReplaceItem_frame
  show ?thesis by auto
next
  case Bedrock
  with assms mapFlag_frame [of "bedrockReplaceTurn lid new" turns b turns' "eraseBedrockTurn lid"]
    bedrockReplaceTurn_frame
  show ?thesis by auto
next
  case Gemini
  with assms show ?thesis
    by (auto split: option.splits dest: geminiReplace_frame)
qed

text \<open>
  C7. Whenever \<^verbatim>\<open>replaceToolOutput\<close> returns, the body after the call and the body
  before it are equal once the tool-result content designated by the identifier is
  erased from both: the \<^verbatim>\<open>content\<close> of Chat \<^verbatim>\<open>tool\<close> turns and \<^verbatim>\<open>tool_result\<close>
  parts, the \<^verbatim>\<open>output\<close> of Responses \<^verbatim>\<open>function_call_output\<close> items, the
  \<^verbatim>\<open>toolResult.content\<close> of Bedrock blocks whose identifier equals the given one
  case-insensitively, and the \<^verbatim>\<open>response\<close> of the Gemini function responses whose
  position maps to it. Every other turn, part and field is as before, and a call that
  returns false has changed nothing. A matched Bedrock block gets a content of a single
  text block.
\<close>

theorem replace_changes_only_matching_content:
  assumes "replaceToolOutput body f toolId newContent state = Inr (replaced, body')"
  shows "eraseBody f state (toLowerCase toolId) body' = eraseBody f state (toLowerCase toolId) body
       \<and> (\<not> replaced \<longrightarrow> body' = body)
       \<and> (\<forall>block block'.
             bedrockReplaceBlock (toLowerCase toolId) newContent block = Inr (True, block')
             \<longrightarrow> get (get block' ''toolResult'') ''content''
                   = JArr [JObj [(''text'', JStr newContent)]])"
proof -
  let ?lid = "toLowerCase toolId"
  from assms obtain d where d: "getDataArray f body = Inr d"
    by (cases "getDataArray f body") (simp_all add: replaceToolOutput_def)
  have main: "eraseBody f state ?lid body' = eraseBody f state ?lid body
       \<and> (\<not> replaced \<longrightarrow> body' = body)"
  proof (cases "isArray d")
    case False
    with assms d have "body' = body" and "\<not> replaced"
      by (cases d; simp add: replaceToolOutput_def split: if_splits)+
    then show ?thesis by simp
  next
    case True
    then obtain turns where turns: "d = JArr turns"
      by (cases d) auto
    with d have arr: "get body (dataKey f) = JArr turns"
      by (simp add: getDataArray_def readProp_def split: if_splits)
    then have obj: "isObject body"
      by (rule get_JArr_isObject)
    from assms d turns obtain r where r: "replaceLoop f ?lid newContent state turns = Inr r"
      by (cases "replaceLoop f ?lid newContent state turns") (simp_all add: replaceToolOutput_def)
    obtain b turns' where r': "r = (b, turns')"
      by (cases r) auto
    from assms d turns r r' have res: "replaced = b"
      "body' = setProp body (dataKey f) (JArr turns')"
      by (simp_all add: replaceToolOutput_def)
    from r r' have "replaceLoop f ?lid newContent state turns = Inr (b, turns')"
      by simp
    from replaceLoop_frame [OF this]
    have same: "eraseTurns f state ?lid turns' = eraseTurns f state ?lid turns"
      and unchanged: "\<not> b \<Longrightarrow> turns' = turns"
      by simp_all
    from obj same arr have "eraseBody f state ?lid body' = eraseBody f state ?lid body"
      by (simp add: eraseBody_def res setProp_twice)
    moreover from arr unchanged res have "\<not> replaced \<longrightarrow> body' = body"
      by (auto simp: setProp_get)
    ultimately show ?thesis
      by simp
  qed
  have "get (get block' ''toolResult'') ''content'' = JArr [JObj [(''text'', JStr newContent)]]"
    if "bedrockReplaceBlock ?lid newContent block = Inr (True, block')" for block block'
    using bedrockReplaceBlock_frame [OF that] by simp
  with main show ?thesis
    by blast
qed

theorem replace_changes_only_matching_content_witness:
  "replaceToolOutput bedrockToolBody Bedrock ''TOOL_1'' ''pruned'' createPluginState
     = Inr (True, bedrockPrunedBody)
   \<and> eraseBody Bedrock createPluginState (toLowerCase ''TOOL_1'') bedrockPrunedBody
       = eraseBody Bedrock createPluginState (toLowerCase ''TOOL_1'') bedrockToolBody
   \<and> bedrockPrunedBody \<noteq> bedrockToolBody"
proof -
  have run: "replaceToolOutput bedrockToolBody Bedrock ''TOOL_1'' ''pruned'' createPluginState
     = Inr (True, bedrockPrunedBody)"
    by (simp add: replaceToolOutput_def getDataArray_def readProp_def bedrockToolBody_def
        bedrockPrunedBody_def bedrockReplaceTurn_def bedrockReplaceBlock_def lower_simps)
  have "bedrockPrunedBody \<noteq> bedrockToolBody"
    by (simp add: bedrockToolBody_def bedrockPrunedBody_def)
  with run replace_changes_only_matching_content [OF run] show ?thesis
    by blast
qed

section \<open>Replacing an absent identifier\<close>


lemma optToLowerCase_error: "optToLowerCase v = Inl e \<Longrightarrow> e = TypeError"
  by (cases v) auto

lemma andThen_eq_Inl: "andThen m f = Inl e \<longleftrightarrow> m = Inl e \<or> (\<exists>x. m = Inr x \<and> f x = Inl e)"
  by (cases m) simp_all

lemma mapFlag_error:
  assumes "mapFlag f xs = Inl e"
    and "\<And>x e. f x = Inl e \<Longrightarrow> e = TypeError"
  shows "e = TypeError"
  using assms(1)
proof (induction xs)
  case Nil
  then show ?case by simp
next
  case (Cons x xs)
  show ?case
  proof (cases "f x")
    case (Inl e')
    with Cons.prems assms(2) show ?thesis by auto
  next
    case (Inr r)
    obtain b y where r: "r = (b, y)"
      by (cases r) auto
    show ?thesis
    proof (cases "mapFlag f xs")
      case (Inl e')
      with Cons.prems Inr r have "e' = e" by simp
      with Inl Cons.IH show ?thesis by simp
    next
      case (Inr r')
      obtain c ys where "r' = (c, ys)"
        by (cases r') auto
      with Cons.prems \<open>f x = Inr r\<close> r Inr show ?thesis by simp
    qed
  qed
qed

lemma chatReplacePart_error: "chatReplacePart lid new part = Inl e \<Longrightarrow> e = TypeError"
  by (auto simp: chatReplacePart_def andThen_eq_Inl split: if_splits dest: optToLowerCase_error)

lemma chatReplaceTurn_error:
  assumes "chatReplaceTurn lid new m = Inl e"
  shows "e = TypeError"
proof (cases "nullish m")
  case True
  with assms show ?thesis by (simp add: chatReplaceTurn_def)
next
  case False
  show ?thesis
  proof (cases "get m ''role'' = JStr ''tool''")
    case True
    with assms False show ?thesis
      by (auto simp: chatReplaceTurn_def andThen_eq_Inl dest: optToLowerCase_error)
  next
    case notool: False
    show ?thesis
    proof (cases "get m ''role'' = JStr ''user'' \<and> isArray (get m ''content'')")
      case True
      then obtain parts where "get m ''content'' = JArr parts"
        by (cases "get m ''content''") auto
      with assms False notool True
      have "\<exists>e'. mapFlag (chatReplacePart lid new) parts = Inl e' \<and> e' = e"
        by (auto simp: chatReplaceTurn_def andThen_eq_Inl split: if_splits)
      then show ?thesis
        using mapFlag_error [of "chatReplacePart lid new" parts e] chatReplacePart_error
        by blast
    next
      case False
      with assms \<open>\<not> nullish m\<close> notool show ?thesis
        by (cases "get m ''content''") (auto simp: chatReplaceTurn_def split: if_splits)
    qed
  qed
qed

lemma responsesReplaceItem_error: "responsesReplaceItem lid new item = Inl e \<Longrightarrow> e = TypeError"
  by (auto simp: responsesReplaceItem_def andThen_eq_Inl split: if_splits
      dest: optToLowerCase_error)

lemma bedrockReplaceBlock_error: "bedrockReplaceBlock lid new block = Inl e \<Longrightarrow> e = TypeError"
  by (auto simp: bedrockReplaceBlock_def andThen_eq_Inl split: if_splits
      dest: optToLowerCase_error)

lemma bedrockReplaceTurn_error:
  assumes "bedrockReplaceTurn lid new m = Inl e"
  shows "e = TypeError"
proof (cases "get m ''role'' = JStr ''user'' \<and> isArray (get m ''content'')")
  case True
  then obtain blocks where "get m ''content'' = JArr blocks"
    by (cases "get m ''content''") auto
  with assms True
  have "nullish m \<and> e = TypeError \<or> mapFlag (bedrockReplaceBlock lid new) blocks = Inl e"
    by (auto simp: bedrockReplaceTurn_def andThen_eq_Inl split: if_splits)
  then show ?thesis
    using mapFlag_error [of "bedrockReplaceBlock lid new" blocks e] bedrockReplaceBlock_error
    by blast
next
  case False
  with assms show ?thesis
    by (cases "get m ''content''") (auto simp: bedrockReplaceTurn_def split: if_splits)
qed

lemma lowerOf_matches:
  assumes "lowerOf v = JStr lid" and "lid \<noteq> []"
  shows "truthy v \<and> callToLowerCase v = Inr lid"
  using assms by (cases v) (auto simp: lowerOf_def)

lemma mapFlag_absent:
  assumes "collect ex xs = Inr outs"
    and "lid \<notin> id_str ` set outs"
    and "mapFlag rp xs = Inr (b, ys)"
    and "\<And>x os c y. ex x = Inr os \<Longrightarrow> lid \<notin> id_str ` set os \<Longrightarrow> rp x = Inr (c, y) \<Longrightarrow> \<not> c"
  shows "\<not> b"
  using assms(1,2,3)
proof (induction xs arbitrary: outs b ys)
  case Nil
  then show ?case by simp
next
  case (Cons x xs)
  from Cons.prems(1) obtain os zs where
    x: "ex x = Inr os" and xs: "collect ex xs = Inr zs" and outs: "outs = os @ zs"
    by (auto simp: andThen_eq_Inr)
  from Cons.prems(3) obtain c y d ws where
    rx: "rp x = Inr (c, y)" and rxs: "mapFlag rp xs = Inr (d, ws)" and b: "b = (c \<or> d)"
    by (auto simp: andThen_eq_Inr)
  from Cons.prems(2) outs have "lid \<notin> id_str ` set os" and "lid \<notin> id_str ` set zs"
    by auto
  with assms(4) [OF x _ rx] Cons.IH [OF xs _ rxs] b show ?case
    by simp
qed

lemma chatPart_absent:
  assumes "chatPartOutputs part = Inr os" and "lid \<notin> id_str ` set os" and "lid \<noteq> []"
    and "chatReplacePart lid new part = Inr (c, y)"
  shows "\<not> c"
proof
  assume c
  with assms(4) have ty: "get part ''type'' = JStr ''tool_result''"
    and "optToLowerCase (get part ''tool_use_id'') = Inr (JStr lid)"
    by (auto simp: chatReplacePart_def andThen_eq_Inr split: if_splits)
  then have "lowerOf (get part ''tool_use_id'') = JStr lid"
    by (auto dest: optToLowerCase_lowerOf)
  from lowerOf_matches [OF this assms(3)] ty assms(1,4) have "lid \<in> id_str ` set os"
    by (auto simp: chatPartOutputs_def chatReplacePart_def split: if_splits)
  with assms(2) show False by simp
qed

lemma chatTurn_absent:
  assumes "chatTurnOutputs m = Inr os" and "lid \<notin> id_str ` set os" and "lid \<noteq> []"
    and "chatReplaceTurn lid new m = Inr (c, y)"
  shows "\<not> c"
proof -
  from assms(1) have nn: "\<not> nullish m"
    by (auto simp: chatTurnOutputs_def split: if_splits)
  from assms(1) nn obtain a b where
    a: "(if get m ''role'' = JStr ''tool'' \<and> truthy (get m ''tool_call_id'')
         then andThen (callToLowerCase (get m ''tool_call_id'')) (\<lambda>i.
                Inr [\<lparr> id_str = i, toolName = get m ''name'',
                       content = stringOrStringify (get m ''content'') \<rparr>])
         else Inr []) = Inr a"
    and b: "(if get m ''role'' = JStr ''user''
             then (case get m ''content'' of
                     JArr parts \<Rightarrow> collect chatPartOutputs parts
                   | _ \<Rightarrow> Inr [])
             else Inr []) = Inr b"
    and os: "os = a @ b"
    by (auto simp: chatTurnOutputs_def andThen_eq_Inr)
  consider (tool) "get m ''role'' = JStr ''tool''"
    | (user) "get m ''role'' = JStr ''user''"
    | (other) "get m ''role'' \<noteq> JStr ''tool''" "get m ''role'' \<noteq> JStr ''user''"
    by blast
  then show ?thesis
  proof cases
    case tool
    show ?thesis
    proof
      assume c
      with assms(4) tool nn have "optToLowerCase (get m ''tool_call_id'') = Inr (JStr lid)"
        by (auto simp: chatReplaceTurn_def andThen_eq_Inr)
      then have "lowerOf (get m ''tool_call_id'') = JStr lid"
        by (auto dest: optToLowerCase_lowerOf)
      from lowerOf_matches [OF this assms(3)] tool a have "lid \<in> id_str ` set a"
        by auto
      with assms(2) os show False by auto
    qed
  next
    case user
    show ?thesis
    proof (cases "isArray (get m ''content'')")
      case True
      then obtain parts where parts: "get m ''content'' = JArr parts"
        by (cases "get m ''content''") auto
      with b user have col: "collect chatPartOutputs parts = Inr b"
        by simp
      from assms(4) user nn parts obtain r where
        r: "mapFlag (chatReplacePart lid new) parts = Inr r"
        by (cases "mapFlag (chatReplacePart lid new) parts") (simp_all add: chatReplaceTurn_def)
      obtain modified newArr where r': "r = (modified, newArr)"
        by (cases r) auto
      from assms(2) os have "lid \<notin> id_str ` set b"
        by auto
      from mapFlag_absent [OF col this, of "chatReplacePart lid new" modified newArr]
        r r' chatPart_absent [OF _ _ assms(3)]
      have "\<not> modified"
        by blast
      with assms(4) user nn parts r r' show ?thesis
        by (simp add: chatReplaceTurn_def)
    next
      case False
      with assms(4) user nn show ?thesis
        by (cases "get m ''content''") (auto simp: chatReplaceTurn_def)
    qed
  next
    case other
    with assms(4) nn show ?thesis
      by (auto simp: chatReplaceTurn_def)
  qed
qed

lemma responsesItem_absent:
  assumes "responsesItemOutputs item = Inr os" and "lid \<notin> id_str ` set os" and "lid \<noteq> []"
    and "responsesReplaceItem lid new item = Inr (c, y)"
  shows "\<not> c"
proof
  assume c
  with assms(4) have ty: "get item ''type'' = JStr ''function_call_output''"
    and "optToLowerCase (get item ''call_id'') = Inr (JStr lid)"
    by (auto simp: responsesReplaceItem_def andThen_eq_Inr split: if_splits)
  then have "lowerOf (get item ''call_id'') = JStr lid"
    by (auto dest: optToLowerCase_lowerOf)
  from lowerOf_matches [OF this assms(3)] ty assms(1,4) have "lid \<in> id_str ` set os"
    by (auto simp: responsesItemOutputs_def responsesReplaceItem_def split: if_splits)
  with assms(2) show False by simp
qed

lemma bedrockBlock_absent:
  assumes "bedrockBlockOutputs block = Inr os" and "lid \<notin> id_str ` set os" and "lid \<noteq> []"
    and "bedrockReplaceBlock lid new block = Inr (c, y)"
  shows "\<not> c"
proof
  assume c
  with assms(4) have tr: "truthy (get block ''toolResult'')"
    and "optToLowerCase (get (get block ''toolResult'') ''toolUseId'') = Inr (JStr lid)"
    by (auto simp: bedrockReplaceBlock_def andThen_eq_Inr split: if_splits)
  then have "lowerOf (get (get block ''toolResult'') ''toolUseId'') = JStr lid"
    by (auto dest: optToLowerCase_lowerOf)
  from lowerOf_matches [OF this assms(3)] tr assms(1,4) have "lid \<in> id_str ` set os"
    by (auto simp: bedrockBlockOutputs_def bedrockReplaceBlock_def andThen_eq_Inr
        split: if_splits)
  with assms(2) show False by simp
qed

lemma bedrockTurn_absent:
  assumes "bedrockTurnOutputs m = Inr os" and "lid \<notin> id_str ` set os" and "lid \<noteq> []"
    and "bedrockReplaceTurn lid new m = Inr (c, y)"
  shows "\<not> c"
proof (cases "get m ''role'' = JStr ''user'' \<and> isArray (get m ''content'')")
  case False
  with assms(4) show ?thesis
    by (cases "get m ''content''") (auto simp: bedrockReplaceTurn_def split: if_splits)
next
  case True
  then obtain blocks where blocks: "get m ''content'' = JArr blocks"
    by (cases "get m ''content''") auto
  from assms(1) have nn: "\<not> nullish m"
    by (auto simp: bedrockTurnOutputs_def split: if_splits)
  with assms(1) True blocks have col: "collect bedrockBlockOutputs blocks = Inr os"
    by (simp add: bedrockTurnOutputs_def)
  from assms(4) True nn blocks obtain r where
    r: "mapFlag (bedrockReplaceBlock lid new) blocks = Inr r"
    by (cases "mapFlag (bedrockReplaceBlock lid new) blocks") (simp_all add: bedrockReplaceTurn_def)
  obtain modified newArr where r': "r = (modified, newArr)"
    by (cases r) auto
  from mapFlag_absent [OF col assms(2), of "bedrockReplaceBlock lid new" modified newArr]
    r r' bedrockBlock_absent [OF _ _ assms(3)]
  have "\<not> modified"
    by blast
  with assms(4) True nn blocks r r' show ?thesis
    by (simp add: bedrockReplaceTurn_def)
qed

lemma geminiMappedParts_Cons:
  assumes "geminiMappedParts pm (counters, outputs) (part # parts) = Inr r"
  shows "\<not> nullish part
       \<and> (truthy (get part ''functionResponse'') \<longrightarrow>
            optToLowerCase (get (get part ''functionResponse'') ''name'')
              = Inr (lowerOf (get (get part ''functionResponse'') ''name'')))
       \<and> (case countedName part of
             None \<Rightarrow> geminiMappedParts pm (counters, outputs) parts = Inr r
           | Some fname \<Rightarrow>
               geminiMappedParts pm
                 (counters(fname \<mapsto> counterOf counters fname + 1),
                  outputs @
                    [\<lparr> id_str = recoveredId pm fname (counterOf counters fname),
                       toolName = JStr fname,
                       content = geminiContent (get (get part ''functionResponse'') ''response'') \<rparr>])
                 parts = Inr r)"
proof -
  from assms have nn: "\<not> nullish part"
    by (auto split: if_splits)
  show ?thesis
  proof (cases "truthy (get part ''functionResponse'')")
    case False
    with assms nn show ?thesis
      by (simp add: countedName_def)
  next
    case True
    with assms nn obtain funcName where
      fn: "optToLowerCase (get (get part ''functionResponse'') ''name'') = Inr funcName"
      by (cases "optToLowerCase (get (get part ''functionResponse'') ''name'')") simp_all
    then have low: "lowerOf (get (get part ''functionResponse'') ''name'') = funcName"
      by (auto dest: optToLowerCase_lowerOf)
    show ?thesis
    proof (cases "\<exists>fname. funcName = JStr fname \<and> fname \<noteq> []")
      case True
      then obtain fname where f: "funcName = JStr fname" "fname \<noteq> []"
        by blast
      with low \<open>truthy (get part ''functionResponse'')\<close> have cn: "countedName part = Some fname"
        by (simp add: countedName_def)
      from assms nn \<open>truthy (get part ''functionResponse'')\<close> fn f cn low show ?thesis
        by simp
    next
      case False
      with low \<open>truthy (get part ''functionResponse'')\<close> have cn: "countedName part = None"
        by (cases funcName) (auto simp: countedName_def)
      from False assms nn \<open>truthy (get part ''functionResponse'')\<close> fn cn low show ?thesis
        by (cases funcName) auto
    qed
  qed
qed

lemma geminiMappedParts_prefix:
  "geminiMappedParts pm (counters, outputs) parts = Inr (counters', outs) \<Longrightarrow>
   set outputs \<subseteq> set outs"
proof (induction parts arbitrary: counters outputs)
  case Nil
  then show ?case by simp
next
  case (Cons part parts)
  from geminiMappedParts_Cons [OF Cons.prems] Cons.IH show ?case
    by (cases "countedName part") (auto dest!: Cons.IH)
qed

lemma geminiMapped_prefix:
  "geminiMapped pm (counters, outputs) data = Inr (counters', outs) \<Longrightarrow>
   set outputs \<subseteq> set outs"
proof (induction data arbitrary: counters outputs)
  case Nil
  then show ?case by simp
next
  case (Cons c cs)
  show ?case
  proof (cases "isArray (get c ''parts'')")
    case False
    with Cons.prems have "geminiMapped pm (counters, outputs) cs = Inr (counters', outs)"
      by (cases "get c ''parts''") (auto split: if_splits)
    from Cons.IH [OF this] show ?thesis .
  next
    case True
    then obtain parts where parts: "get c ''parts'' = JArr parts"
      by (cases "get c ''parts''") auto
    with Cons.prems obtain c1 o1 where
      mid: "geminiMappedParts pm (counters, outputs) parts = Inr (c1, o1)"
      and rest: "geminiMapped pm (c1, o1) cs = Inr (counters', outs)"
      by (auto simp: andThen_eq_Inr split: if_splits)
    from geminiMappedParts_prefix [OF mid] Cons.IH [OF rest] show ?thesis
      by blast
  qed
qed

lemma mappedIdMatches_recoveredId:
  "mappedIdMatches pm fname n lid \<Longrightarrow> lid \<noteq> [] \<Longrightarrow> recoveredId pm fname n = lid"
  by (auto simp: mappedIdMatches_def recoveredId_def split: option.splits)

lemma geminiReplaceParts_step:
  assumes "\<not> nullish part"
    and "truthy (get part ''functionResponse'') \<longrightarrow>
            optToLowerCase (get (get part ''functionResponse'') ''name'')
              = Inr (lowerOf (get (get part ''functionResponse'') ''name''))"
  shows "geminiReplaceParts pm lid new counters (part # parts) =
     (case countedName part of
        None \<Rightarrow>
          andThen (geminiReplaceParts pm lid new counters parts)
            (\<lambda>(counters'', modified, parts'). Inr (counters'', modified, part # parts'))
      | Some fname \<Rightarrow>
          andThen (geminiReplaceParts pm lid new
                     (counters(fname \<mapsto> counterOf counters fname + 1)) parts)
            (\<lambda>(counters'', modified, parts').
               Inr (counters'',
                    mappedIdMatches pm fname (counterOf counters fname) lid \<or> modified,
                    (if mappedIdMatches pm fname (counterOf counters fname) lid
                     then geminiNewPart new part else part) # parts')))"
proof (cases "truthy (get part ''functionResponse'')")
  case False
  with assms show ?thesis
    by (simp add: countedName_def)
next
  case True
  show ?thesis
  proof (cases "lowerOf (get (get part ''functionResponse'') ''name'')")
    case (JStr fname)
    with assms True show ?thesis
      by (simp add: countedName_def)
  qed (use assms True in \<open>simp_all add: countedName_def\<close>)
qed

lemma geminiParts_absent:
  "geminiMappedParts pm (counters, outputs) parts = Inr (counters1, outs) \<Longrightarrow>
   lid \<notin> id_str ` set outs \<Longrightarrow> lid \<noteq> [] \<Longrightarrow>
   geminiReplaceParts pm lid new counters parts = Inr (counters1, False, parts)"
proof (induction parts arbitrary: counters outputs)
  case Nil
  then show ?case by simp
next
  case (Cons part parts)
  from geminiMappedParts_Cons [OF Cons.prems(1)]
  have nn: "\<not> nullish part"
    and low: "truthy (get part ''functionResponse'') \<longrightarrow>
            optToLowerCase (get (get part ''functionResponse'') ''name'')
              = Inr (lowerOf (get (get part ''functionResponse'') ''name''))"
    and step: "(case countedName part of
             None \<Rightarrow> geminiMappedParts pm (counters, outputs) parts = Inr (counters1, outs)
           | Some fname \<Rightarrow>
               geminiMappedParts pm
                 (counters(fname \<mapsto> counterOf counters fname + 1),
                  outputs @
                    [\<lparr> id_str = recoveredId pm fname (counterOf counters fname),
                       toolName = JStr fname,
                       content = geminiContent (get (get part ''functionResponse'') ''response'') \<rparr>])
                 parts = Inr (counters1, outs))"
    by simp_all
  show ?case
  proof (cases "countedName part")
    case None
    with step have "geminiMappedParts pm (counters, outputs) parts = Inr (counters1, outs)"
      by simp
    from Cons.IH [OF this Cons.prems(2,3)]
    have ih: "geminiReplaceParts pm lid new counters parts = Inr (counters1, False, parts)" .
    have "geminiReplaceParts pm lid new counters (part # parts)
        = andThen (geminiReplaceParts pm lid new counters parts)
            (\<lambda>(counters'', modified, parts'). Inr (counters'', modified, part # parts'))"
      using None by (simp only: geminiReplaceParts_step [OF nn low] option.case)
    also have "\<dots> = Inr (counters1, False, part # parts)"
      by (simp add: ih)
    finally show ?thesis .
  next
    case (Some fname)
    with step have rest: "geminiMappedParts pm
                 (counters(fname \<mapsto> counterOf counters fname + 1),
                  outputs @
                    [\<lparr> id_str = recoveredId pm fname (counterOf counters fname),
                       toolName = JStr fname,
                       content = geminiContent (get (get part ''functionResponse'') ''response'') \<rparr>])
                 parts = Inr (counters1, outs)"
      by simp
    from geminiMappedParts_prefix [OF rest]
    have "recoveredId pm fname (counterOf counters fname) \<in> id_str ` set outs"
      by force
    with Cons.prems(2) have "recoveredId pm fname (counterOf counters fname) \<noteq> lid"
      by auto
    with Cons.prems(3) have nomatch: "\<not> mappedIdMatches pm fname (counterOf counters fname) lid"
      by (auto dest: mappedIdMatches_recoveredId)
    from Cons.IH [OF rest Cons.prems(2,3)]
    have ih: "geminiReplaceParts pm lid new (counters(fname \<mapsto> counterOf counters fname + 1)) parts
        = Inr (counters1, False, parts)" .
    have "geminiReplaceParts pm lid new counters (part # parts)
        = andThen (geminiReplaceParts pm lid new
                     (counters(fname \<mapsto> counterOf counters fname + 1)) parts)
            (\<lambda>(counters'', modified, parts').
               Inr (counters'',
                    mappedIdMatches pm fname (counterOf counters fname) lid \<or> modified,
                    (if mappedIdMatches pm fname (counterOf counters fname) lid
                     then geminiNewPart new part else part) # parts'))"
      using Some by (simp only: geminiReplaceParts_step [OF nn low] option.case)
    also have "\<dots> = Inr (counters1, False, part # parts)"
      using nomatch ih by simp
    finally show ?thesis .
  qed
qed

lemma gemini_absent:
  "geminiMapped pm (counters, outputs) data = Inr (counters1, outs) \<Longrightarrow>
   lid \<notin> id_str ` set outs \<Longrightarrow> lid \<noteq> [] \<Longrightarrow>
   geminiReplace pm lid new counters data = Inr (False, data)"
proof (induction data arbitrary: counters outputs)
  case Nil
  then show ?case by simp
next
  case (Cons c cs)
  from Cons.prems(1) have nn: "\<not> nullish c"
    by (auto split: if_splits)
  show ?case
  proof (cases "isArray (get c ''parts'')")
    case False
    with Cons.prems(1) nn have "geminiMapped pm (counters, outputs) cs = Inr (counters1, outs)"
      by (cases "get c ''parts''") auto
    from Cons.IH [OF this Cons.prems(2,3)] False nn show ?thesis
      by (cases "get c ''parts''") auto
  next
    case True
    then obtain parts where parts: "get c ''parts'' = JArr parts"
      by (cases "get c ''parts''") auto
    with Cons.prems(1) nn obtain c2 o2 where
      mid: "geminiMappedParts pm (counters, outputs) parts = Inr (c2, o2)"
      and rest: "geminiMapped pm (c2, o2) cs = Inr (counters1, outs)"
      by (auto simp: andThen_eq_Inr)
    from geminiMapped_prefix [OF rest] Cons.prems(2) have "lid \<notin> id_str ` set o2"
      by auto
    from geminiParts_absent [OF mid this Cons.prems(3)]
    have "geminiReplaceParts pm lid new counters parts = Inr (c2, False, parts)" .
    with Cons.IH [OF rest Cons.prems(2,3)] nn parts show ?thesis
      by simp
  qed
qed

lemma replaceLoop_absent_gemini:
  assumes "extractToolOutputs Gemini turns state = Inr outs"
    and "lid \<notin> id_str ` set outs" and "lid \<noteq> []"
  shows "replaceLoop Gemini lid new state turns = Inr (False, turns)"
proof (cases "firstNonEmpty (googleToolCallMapping state)")
  case None
  then show ?thesis by simp
next
  case (Some pm)
  with assms(1) obtain r where r: "geminiMapped pm (Map.empty, []) turns = Inr r"
    by (cases "geminiMapped pm (Map.empty, []) turns") simp_all
  obtain counters1 outs' where r': "r = (counters1, outs')"
    by (cases r) auto
  with assms(1) Some r have "outs' = outs"
    by simp
  with r r' have "geminiMapped pm (Map.empty, []) turns = Inr (counters1, outs)"
    by simp
  from gemini_absent [OF this assms(2,3)] Some show ?thesis
    by simp
qed

lemma replaceLoop_absent:
  assumes "extractToolOutputs f turns state = Inr outs"
    and "lid \<notin> id_str ` set outs" and "lid \<noteq> []"
  shows "replaceLoop f lid new state turns = Inr (False, turns)
       \<or> replaceLoop f lid new state turns = Inl TypeError"
proof (cases "replaceLoop f lid new state turns")
  case (Inl e)
  have "e = TypeError"
  proof (cases f)
    case OpenaiChat
    with Inl show ?thesis
      using mapFlag_error [of "chatReplaceTurn lid new" turns e] chatReplaceTurn_error
      by auto
  next
    case OpenaiResponses
    with Inl show ?thesis
      using mapFlag_error [of "responsesReplaceItem lid new" turns e] responsesReplaceItem_error
      by auto
  next
    case Bedrock
    with Inl show ?thesis
      using mapFlag_error [of "bedrockReplaceTurn lid new" turns e] bedrockReplaceTurn_error
      by auto
  next
    case Gemini
    with assms Inl replaceLoop_absent_gemini [of turns state outs lid new] show ?thesis
      by simp
  qed
  with Inl show ?thesis by simp
next
  case (Inr r)
  obtain b turns' where r: "r = (b, turns')"
    by (cases r) auto
  with Inr have run: "replaceLoop f lid new state turns = Inr (b, turns')"
    by simp
  have "\<not> b"
  proof (cases f)
    case OpenaiChat
    with assms(1) have col: "collect chatTurnOutputs turns = Inr outs"
      by simp
    from OpenaiChat run have mf: "mapFlag (chatReplaceTurn lid new) turns = Inr (b, turns')"
      by simp
    show ?thesis
      by (rule mapFlag_absent [OF col assms(2) mf]) (auto dest: chatTurn_absent [OF _ _ assms(3)])
  next
    case OpenaiResponses
    with assms(1) have col: "collect responsesItemOutputs turns = Inr outs"
      by simp
    from OpenaiResponses run have mf: "mapFlag (responsesReplaceItem lid new) turns = Inr (b, turns')"
      by simp
    show ?thesis
      by (rule mapFlag_absent [OF col assms(2) mf]) (auto dest: responsesItem_absent [OF _ _ assms(3)])
  next
    case Bedrock
    with assms(1) have col: "collect bedrockTurnOutputs turns = Inr outs"
      by simp
    from Bedrock run have mf: "mapFlag (bedrockReplaceTurn lid new) turns = Inr (b, turns')"
      by simp
    show ?thesis
      by (rule mapFlag_absent [OF col assms(2) mf]) (auto dest: bedrockTurn_absent [OF _ _ assms(3)])
  next
    case Gemini
    with assms run replaceLoop_absent_gemini [of turns state outs lid new] show ?thesis
      by simp
  qed
  with replaceLoop_frame [OF run] run show ?thesis
    by simp
qed

text \<open>Whether a replacement throws does not depend on the identifier looked for.\<close>

lemma isl_andThen: "isl (andThen m f) \<longleftrightarrow> isl m \<or> (\<exists>x. m = Inr x \<and> isl (f x))"
  by (cases m) simp_all

lemma isl_mapFlag_Cons: "isl (mapFlag f (x # xs)) \<longleftrightarrow> isl (f x) \<or> isl (mapFlag f xs)"
  by (cases "f x"; cases "mapFlag f xs") (auto simp: split_beta)

lemma isl_mapFlag_cong:
  "(\<And>x. isl (f x) = isl (g x)) \<Longrightarrow> isl (mapFlag f xs) = isl (mapFlag g xs)"
  by (induction xs) (simp_all add: isl_mapFlag_Cons del: mapFlag.simps(2))

lemma isl_chatReplacePart:
  "isl (chatReplacePart lid new part) \<longleftrightarrow>
     nullish part
     \<or> (get part ''type'' = JStr ''tool_result'' \<and> isl (optToLowerCase (get part ''tool_use_id'')))"
  by (cases "optToLowerCase (get part ''tool_use_id'')") (simp_all add: chatReplacePart_def)

lemma isl_chatReplaceTurn:
  "isl (chatReplaceTurn lid new m) \<longleftrightarrow>
     nullish m
     \<or> (get m ''role'' = JStr ''tool'' \<and> isl (optToLowerCase (get m ''tool_call_id'')))
     \<or> (get m ''role'' = JStr ''user''
        \<and> (\<exists>parts. get m ''content'' = JArr parts \<and> isl (mapFlag (chatReplacePart lid new) parts)))"
proof (cases "nullish m")
  case True
  then show ?thesis by (simp add: chatReplaceTurn_def)
next
  case False
  consider (tool) "get m ''role'' = JStr ''tool''"
    | (user) "get m ''role'' = JStr ''user''"
    | (other) "get m ''role'' \<noteq> JStr ''tool''" "get m ''role'' \<noteq> JStr ''user''"
    by blast
  then show ?thesis
  proof cases
    case tool
    with False show ?thesis
      by (cases "optToLowerCase (get m ''tool_call_id'')") (simp_all add: chatReplaceTurn_def)
  next
    case user
    show ?thesis
    proof (cases "get m ''content''")
      case (JArr parts)
      with False user show ?thesis
        by (cases "mapFlag (chatReplacePart lid new) parts")
           (simp_all add: chatReplaceTurn_def split_beta)
    qed (use False user in \<open>simp_all add: chatReplaceTurn_def\<close>)
  next
    case other
    with False show ?thesis
      by (simp add: chatReplaceTurn_def)
  qed
qed

lemma isl_responsesReplaceItem:
  "isl (responsesReplaceItem lid new item) \<longleftrightarrow>
     nullish item
     \<or> (get item ''type'' = JStr ''function_call_output''
        \<and> isl (optToLowerCase (get item ''call_id'')))"
  by (cases "optToLowerCase (get item ''call_id'')") (simp_all add: responsesReplaceItem_def)

lemma isl_bedrockReplaceBlock:
  "isl (bedrockReplaceBlock lid new block) \<longleftrightarrow>
     nullish block
     \<or> (truthy (get block ''toolResult'')
        \<and> isl (optToLowerCase (get (get block ''toolResult'') ''toolUseId'')))"
  by (cases "optToLowerCase (get (get block ''toolResult'') ''toolUseId'')")
     (simp_all add: bedrockReplaceBlock_def)

lemma isl_bedrockReplaceTurn:
  "isl (bedrockReplaceTurn lid new m) \<longleftrightarrow>
     nullish m
     \<or> (get m ''role'' = JStr ''user''
        \<and> (\<exists>blocks. get m ''content'' = JArr blocks
              \<and> isl (mapFlag (bedrockReplaceBlock lid new) blocks)))"
proof (cases "nullish m \<or> get m ''role'' \<noteq> JStr ''user''")
  case True
  then show ?thesis by (auto simp: bedrockReplaceTurn_def)
next
  case False
  show ?thesis
  proof (cases "get m ''content''")
    case (JArr blocks)
    with False show ?thesis
      by (cases "mapFlag (bedrockReplaceBlock lid new) blocks")
         (simp_all add: bedrockReplaceTurn_def split_beta)
  qed (use False in \<open>simp_all add: bedrockReplaceTurn_def\<close>)
qed

lemma optToLowerCase_total: "\<not> isl (optToLowerCase v) \<Longrightarrow> optToLowerCase v = Inr (lowerOf v)"
  by (cases v) (simp_all add: lowerOf_def)

lemma geminiReplaceParts_throws:
  assumes "nullish part
     \<or> (truthy (get part ''functionResponse'')
        \<and> isl (optToLowerCase (get (get part ''functionResponse'') ''name'')))"
  shows "isl (geminiReplaceParts pm lid new counters (part # parts))"
proof (cases "nullish part")
  case True
  then show ?thesis by simp
next
  case False
  with assms show ?thesis
    by (cases "optToLowerCase (get (get part ''functionResponse'') ''name'')") simp_all
qed

lemma geminiReplaceParts_independent:
  "map_sum (\<lambda>e. ()) fst (geminiReplaceParts pm lid new counters parts)
     = map_sum (\<lambda>e. ()) fst (geminiReplaceParts pm lid' new' counters parts)"
proof (induction parts arbitrary: counters)
  case Nil
  then show ?case by simp
next
  case (Cons part parts)
  show ?case
  proof (cases "nullish part
     \<or> (truthy (get part ''functionResponse'')
        \<and> isl (optToLowerCase (get (get part ''functionResponse'') ''name'')))")
    case True
    from geminiReplaceParts_throws [OF True, of pm lid new counters parts]
      geminiReplaceParts_throws [OF True, of pm lid' new' counters parts]
    show ?thesis
      by (cases "geminiReplaceParts pm lid new counters (part # parts)";
          cases "geminiReplaceParts pm lid' new' counters (part # parts)") simp_all
  next
    case False
    then have nn: "\<not> nullish part"
      and low: "truthy (get part ''functionResponse'') \<longrightarrow>
            optToLowerCase (get (get part ''functionResponse'') ''name'')
              = Inr (lowerOf (get (get part ''functionResponse'') ''name''))"
      by (auto intro: optToLowerCase_total)
    have step: "map_sum (\<lambda>e. ()) fst (geminiReplaceParts pm i n counters (part # parts))
        = map_sum (\<lambda>e. ()) fst
            (geminiReplaceParts pm i n
               (case countedName part of
                  None \<Rightarrow> counters
                | Some fname \<Rightarrow> counters(fname \<mapsto> counterOf counters fname + 1)) parts)"
      for i n
    proof (cases "countedName part")
      case None
      then show ?thesis
        by (cases "geminiReplaceParts pm i n counters parts")
           (simp_all only: geminiReplaceParts_step [OF nn low] option.case andThen_Inl
              andThen_Inr split_beta map_sum.simps fst_conv)
    next
      case (Some fname)
      then show ?thesis
        by (cases "geminiReplaceParts pm i n
                    (counters(fname \<mapsto> counterOf counters fname + 1)) parts")
           (simp_all only: geminiReplaceParts_step [OF nn low] option.case andThen_Inl
              andThen_Inr split_beta map_sum.simps fst_conv)
    qed
    from step [of lid new] step [of lid' new'] Cons.IH show ?thesis
      by simp
  qed
qed

lemma geminiReplace_independent:
  "isl (geminiReplace pm lid new counters data) = isl (geminiReplace pm lid' new' counters data)"
proof (induction data arbitrary: counters)
  case Nil
  then show ?case by simp
next
  case (Cons c cs)
  show ?case
  proof (cases "nullish c")
    case True
    then show ?thesis by simp
  next
    case False
    show ?thesis
    proof (cases "get c ''parts''")
      case (JArr parts)
      show ?thesis
      proof (cases "geminiReplaceParts pm lid new counters parts")
        case (Inl e)
        with geminiReplaceParts_independent [of pm lid new counters parts lid' new']
        obtain e' where "geminiReplaceParts pm lid' new' counters parts = Inl e'"
          by (cases "geminiReplaceParts pm lid' new' counters parts") simp_all
        with Inl False JArr show ?thesis
          by simp
      next
        case (Inr r)
        obtain c1 b1 p1 where r: "r = (c1, b1, p1)"
          by (cases r) auto
        with Inr geminiReplaceParts_independent [of pm lid new counters parts lid' new']
        obtain b2 p2 where r2: "geminiReplaceParts pm lid' new' counters parts = Inr (c1, b2, p2)"
          by (cases "geminiReplaceParts pm lid' new' counters parts") auto
        from Cons.IH [of c1] Inr r r2 False JArr show ?thesis
          by (cases "geminiReplace pm lid new c1 cs"; cases "geminiReplace pm lid' new' c1 cs")
             (simp_all add: split_beta)
      qed
    next
      case JUndef
      with False Cons.IH [of counters] show ?thesis
        by (cases "geminiReplace pm lid new counters cs";
            cases "geminiReplace pm lid' new' counters cs") (simp_all add: split_beta)
    next
      case JNull
      with False Cons.IH [of counters] show ?thesis
        by (cases "geminiReplace pm lid new counters cs";
            cases "geminiReplace pm lid' new' counters cs") (simp_all add: split_beta)
    next
      case (JBool x)
      with False Cons.IH [of counters] show ?thesis
        by (cases "geminiReplace pm lid new counters cs";
            cases "geminiReplace pm lid' new' counters cs") (simp_all add: split_beta)
    next
      case (JNum x)
      with False Cons.IH [of counters] show ?thesis
        by (cases "geminiReplace pm lid new counters cs";
            cases "geminiReplace pm lid' new' counters cs") (simp_all add: split_beta)
    next
      case (JStr x)
      with False Cons.IH [of counters] show ?thesis
        by (cases "geminiReplace pm lid new counters cs";
            cases "geminiReplace pm lid' new' counters cs") (simp_all add: split_beta)
    next
      case (JObj x)
      with False Cons.IH [of counters] show ?thesis
        by (cases "geminiReplace pm lid new counters cs";
            cases "geminiReplace pm lid' new' counters cs") (simp_all add: split_beta)
    qed
  qed
qed

lemma replaceLoop_independent:
  "isl (replaceLoop f lid new state turns) = isl (replaceLoop f lid' new' state turns)"
proof (cases f)
  case OpenaiChat
  have part: "isl (mapFlag (chatReplacePart lid new) parts)
      = isl (mapFlag (chatReplacePart lid' new') parts)" for parts
    by (rule isl_mapFlag_cong) (simp only: isl_chatReplacePart)
  have turn: "isl (chatReplaceTurn lid new m) = isl (chatReplaceTurn lid' new' m)" for m
    by (simp only: isl_chatReplaceTurn part)
  from isl_mapFlag_cong [of "chatReplaceTurn lid new" "chatReplaceTurn lid' new'" turns, OF turn]
    OpenaiChat
  show ?thesis
    by simp
next
  case OpenaiResponses
  have item: "isl (responsesReplaceItem lid new x) = isl (responsesReplaceItem lid' new' x)" for x
    by (simp only: isl_responsesReplaceItem)
  from isl_mapFlag_cong [of "responsesReplaceItem lid new" "responsesReplaceItem lid' new'" turns,
      OF item] OpenaiResponses
  show ?thesis
    by simp
next
  case Bedrock
  have block: "isl (mapFlag (bedrockReplaceBlock lid new) blocks)
      = isl (mapFlag (bedrockReplaceBlock lid' new') blocks)" for blocks
    by (rule isl_mapFlag_cong) (simp only: isl_bedrockReplaceBlock)
  have turn: "isl (bedrockReplaceTurn lid new m) = isl (bedrockReplaceTurn lid' new' m)" for m
    by (simp only: isl_bedrockReplaceTurn block)
  from isl_mapFlag_cong [of "bedrockReplaceTurn lid new" "bedrockReplaceTurn lid' new'" turns,
      OF turn] Bedrock
  show ?thesis
    by simp
next
  case Gemini
  show ?thesis
  proof (cases "firstNonEmpty (googleToolCallMapping state)")
    case None
    with Gemini show ?thesis by simp
  next
    case (Some pm)
    with Gemini geminiReplace_independent [of pm lid new Map.empty turns lid' new']
    show ?thesis by simp
  qed
qed

lemma replaceToolOutput_independent:
  "isl (replaceToolOutput body f toolId newContent state)
     = isl (replaceToolOutput body f toolId' newContent' state)"
proof (cases "getDataArray f body")
  case (Inl e)
  then show ?thesis by (simp add: replaceToolOutput_def)
next
  case (Inr d)
  show ?thesis
  proof (cases d)
    case (JArr turns)
    with Inr replaceLoop_independent [of f "toLowerCase toolId" newContent state turns
        "toLowerCase toolId'" newContent']
    show ?thesis
      by (cases "replaceLoop f (toLowerCase toolId) newContent state turns";
          cases "replaceLoop f (toLowerCase toolId') newContent' state turns")
         (simp_all add: replaceToolOutput_def split_beta)
  qed (use Inr in \<open>simp_all add: replaceToolOutput_def\<close>)
qed

lemma replaceLoop_error:
  assumes "replaceLoop f lid new state turns = Inl e" and "f \<noteq> Gemini"
  shows "e = TypeError"
proof (cases f)
  case OpenaiChat
  with assms show ?thesis
    using mapFlag_error [of "chatReplaceTurn lid new" turns e] chatReplaceTurn_error
    by auto
next
  case OpenaiResponses
  with assms show ?thesis
    using mapFlag_error [of "responsesReplaceItem lid new" turns e] responsesReplaceItem_error
    by auto
next
  case Bedrock
  with assms show ?thesis
    using mapFlag_error [of "bedrockReplaceTurn lid new" turns e] bedrockReplaceTurn_error
    by auto
next
  case Gemini
  with assms show ?thesis by simp
qed



section \<open>The correlator\<close>

text \<open>
  The builder's walk over messages and parts is the walk of \<open>pushCalls\<close> over the
  tool calls of the transcript, and the extraction's walk over turns and parts is the
  walk of \<open>mappedWalk\<close> over the function responses of the turn array.
\<close>

lemma collectParts_pushCalls:
  "list_all (\<lambda>part. \<not> nullish part) parts \<Longrightarrow>
   collectParts byName parts
     = pushCalls byName (map (\<lambda>part. (get part ''tool'', get part ''callID''))
                           (filter isToolCall parts))"
proof (induction parts arbitrary: byName)
  case Nil
  show ?case by simp
next
  case (Cons part parts)
  then show ?case
    by (simp add: isToolCall_def)
qed

lemma pushCalls_append:
  "pushCalls byName (xs @ ys) = andThen (pushCalls byName xs) (\<lambda>byName'. pushCalls byName' ys)"
proof (induction xs arbitrary: byName)
  case Nil
  show ?case by simp
next
  case (Cons x xs)
  obtain t c where x: "x = (t, c)" by (cases x)
  show ?case
    by (cases "callToLowerCase t"; cases "callToLowerCase c") (simp_all add: x Cons.IH)
qed

lemma collectMessages_pushCalls:
  "wellFormedTranscript messages \<Longrightarrow>
   collectMessages byName messages = pushCalls byName (toolCalls messages)"
proof (induction messages arbitrary: byName)
  case Nil
  show ?case by (simp add: toolCalls_def)
next
  case (Cons msg messages)
  from Cons.prems have wf: "wellFormedTranscript messages"
    and nn: "\<not> nullish msg" and it: "partsIterable (get msg ''parts'')"
    and ps: "list_all (\<lambda>part. \<not> nullish part) (partsOf msg)"
    by (simp_all add: wellFormedTranscript_def)
  have split: "toolCalls (msg # messages)
      = map (\<lambda>part. (get part ''tool'', get part ''callID'')) (filter isToolCall (partsOf msg))
        @ toolCalls messages"
    by (simp add: toolCalls_def)
  show ?case
  proof (cases "get msg ''parts''")
    case (JArr parts)
    then have po: "partsOf msg = parts" by (simp add: partsOf_def)
    show ?thesis
    proof (cases "truthy (get msg ''parts'')")
      case True
      with nn JArr ps po show ?thesis
        by (simp add: split pushCalls_append collectParts_pushCalls Cons.IH [OF wf])
    next
      case False
      with JArr show ?thesis by simp
    qed
  next
    case (JStr s)
    then have po: "partsOf msg = []" by (simp add: partsOf_def)
    from nn JStr show ?thesis
      by (simp add: split po Cons.IH [OF wf])
  qed (use nn it in \<open>simp_all add: split partsOf_def partsIterable_def Cons.IH [OF wf]\<close>)
qed

lemma geminiMappedParts_walk:
  "list_all (\<lambda>part. \<not> nullish part) parts \<Longrightarrow>
   geminiMappedParts pm st parts
     = mappedWalk pm st (filter truthy (map (\<lambda>part. get part ''functionResponse'') parts))"
proof (induction parts arbitrary: st)
  case Nil
  show ?case by (cases st) simp
next
  case (Cons part parts)
  from Cons.prems have nn: "\<not> nullish part"
    and ps: "list_all (\<lambda>part. \<not> nullish part) parts"
    by simp_all
  obtain counters outputs where st: "st = (counters, outputs)" by (cases st)
  show ?case
  proof (cases "truthy (get part ''functionResponse'')")
    case False
    with nn show ?thesis by (simp add: st Cons.IH [OF ps])
  next
    case True
    show ?thesis
    proof (cases "optToLowerCase (get (get part ''functionResponse'') ''name'')")
      case (Inl e)
      with nn True show ?thesis by (simp add: st)
    next
      case (Inr funcName)
      with nn True show ?thesis
        by (cases funcName) (simp_all add: st Cons.IH [OF ps])
    qed
  qed
qed

lemma mappedWalk_append:
  "mappedWalk pm st (xs @ ys) = andThen (mappedWalk pm st xs) (\<lambda>st'. mappedWalk pm st' ys)"
proof (induction xs arbitrary: st)
  case Nil
  show ?case by (cases st) simp
next
  case (Cons fr frs)
  obtain counters outputs where st: "st = (counters, outputs)" by (cases st)
  show ?case
  proof (cases "optToLowerCase (get fr ''name'')")
    case (Inl e)
    then show ?thesis by (simp add: st)
  next
    case (Inr funcName)
    then show ?thesis
      by (cases funcName) (simp_all add: st Cons.IH)
  qed
qed

lemma geminiMapped_walk:
  "wellFormedContents data \<Longrightarrow>
   geminiMapped pm (counters, outputs) data
     = mappedWalk pm (counters, outputs) (functionResponses data)"
proof (induction data arbitrary: counters outputs)
  case Nil
  show ?case by (simp add: functionResponses_def)
next
  case (Cons c cs)
  from Cons.prems have wf: "wellFormedContents cs" and nn: "\<not> nullish c"
    and ps: "list_all (\<lambda>part. \<not> nullish part) (partsOf c)"
    by (simp_all add: wellFormedContents_def)
  have split: "functionResponses (c # cs)
      = filter truthy (map (\<lambda>part. get part ''functionResponse'') (partsOf c))
        @ functionResponses cs"
    by (simp add: functionResponses_def)
  show ?case
  proof (cases "get c ''parts''")
    case (JArr parts)
    then have po: "partsOf c = parts" by (simp add: partsOf_def)
    have "geminiMapped pm (counters, outputs) (c # cs)
        = andThen (geminiMappedParts pm (counters, outputs) parts) (\<lambda>st. geminiMapped pm st cs)"
      using nn JArr by simp
    also have "\<dots> = andThen (mappedWalk pm (counters, outputs)
                       (filter truthy (map (\<lambda>part. get part ''functionResponse'') parts)))
                     (\<lambda>st. mappedWalk pm st (functionResponses cs))"
      using ps po
      by (cases "geminiMappedParts pm (counters, outputs) parts")
         (auto simp: geminiMappedParts_walk Cons.IH [OF wf])
    finally show ?thesis
      by (simp add: split po mappedWalk_append)
  qed (use nn in \<open>simp_all add: split partsOf_def Cons.IH [OF wf]\<close>)
qed

lemma rebuildMapping_built:
  assumes "sessionMessages client sid = Some resp"
    and "orElse (get resp ''data'') resp = JArr messages"
    and "buildPositionMapping messages = Inr table"
  shows "googleToolCallMapping (rebuildMapping client sid state)
           = AList.update sid table (googleToolCallMapping state)"
proof -
  from assms(2) have "\<not> nullish resp"
    by (cases resp) (simp_all add: orElse_def)
  with assms show ?thesis
    by (simp add: rebuildMapping_def readProp_def)
qed

lemma three_names:
  assumes "map f xs = [a, b, c]"
  shows "\<exists>x y z. xs = [x, y, z] \<and> f x = a \<and> f y = b \<and> f z = c"
  using assms by (auto simp: map_eq_Cons_conv)

text \<open>
  The builder and the extraction return on the walkable inputs only: on any other
  they throw, and no table is built and no output returned.
\<close>

lemma collectParts_returns:
  "collectParts byName parts = Inr r \<Longrightarrow> list_all (\<lambda>part. \<not> nullish part) parts"
proof (induction parts arbitrary: byName)
  case Nil
  show ?case by simp
next
  case (Cons part parts)
  from Cons.prems have nn: "\<not> nullish part"
    by (auto split: if_splits)
  from Cons.prems nn obtain byName' where "collectParts byName' parts = Inr r"
    by (auto simp: andThen_eq_Inr split: if_splits)
  with Cons.IH nn show ?case by simp
qed

lemma collectMessages_returns:
  "collectMessages byName messages = Inr r \<Longrightarrow> wellFormedTranscript messages"
proof (induction messages arbitrary: byName)
  case Nil
  show ?case by (simp add: wellFormedTranscript_def)
next
  case (Cons msg messages)
  from Cons.prems have nn: "\<not> nullish msg"
    by (auto split: if_splits)
  from Cons.prems nn have it: "partsIterable (get msg ''parts'')"
    by (cases "get msg ''parts''") (auto simp: partsIterable_def split: if_splits)
  from Cons.prems nn have ps: "list_all (\<lambda>part. \<not> nullish part) (partsOf msg)"
    by (cases "get msg ''parts''")
       (auto simp: partsOf_def andThen_eq_Inr split: if_splits dest: collectParts_returns)
  from Cons.prems nn obtain byName' where "collectMessages byName' messages = Inr r"
    by (cases "get msg ''parts''") (auto simp: andThen_eq_Inr split: if_splits)
  then have "wellFormedTranscript messages" by (rule Cons.IH)
  with nn it ps show ?case by (simp add: wellFormedTranscript_def)
qed

lemma buildPositionMapping_returns:
  "buildPositionMapping messages = Inr table \<Longrightarrow> wellFormedTranscript messages"
  by (auto simp: buildPositionMapping_def andThen_eq_Inr dest: collectMessages_returns)

lemma geminiMappedParts_returns:
  "geminiMappedParts pm st parts = Inr r \<Longrightarrow> list_all (\<lambda>part. \<not> nullish part) parts"
proof (induction parts arbitrary: st)
  case Nil
  show ?case by simp
next
  case (Cons part parts)
  obtain counters outputs where st: "st = (counters, outputs)" by (cases st)
  from Cons.prems have nn: "\<not> nullish part"
    by (auto simp: st split: if_splits)
  from geminiMappedParts_Cons [OF Cons.prems [unfolded st]]
  obtain st' where "geminiMappedParts pm st' parts = Inr r"
    by (cases "countedName part") auto
  with Cons.IH nn show ?case by simp
qed

lemma geminiMapped_returns:
  "geminiMapped pm st data = Inr r \<Longrightarrow> wellFormedContents data"
proof (induction data arbitrary: st)
  case Nil
  show ?case by (simp add: wellFormedContents_def)
next
  case (Cons c cs)
  from Cons.prems have nn: "\<not> nullish c"
    by (auto split: if_splits)
  from Cons.prems nn have ps: "list_all (\<lambda>part. \<not> nullish part) (partsOf c)"
    by (cases "get c ''parts''")
       (auto simp: partsOf_def andThen_eq_Inr dest: geminiMappedParts_returns)
  from Cons.prems nn obtain st' where "geminiMapped pm st' cs = Inr r"
    by (cases "get c ''parts''") (auto simp: andThen_eq_Inr)
  then have "wellFormedContents cs" by (rule Cons.IH)
  with nn ps show ?case by (simp add: wellFormedContents_def)
qed

text \<open>
  C1. Take any transcript the builder can walk whose tool calls are, in walk order,
  \<^verbatim>\<open>read\<close> with identifier \<open>id1\<close>, \<^verbatim>\<open>write\<close> with \<open>id2\<close> and \<^verbatim>\<open>read\<close> with \<open>id3\<close>
  (identifiers non-empty and case-folded), however the calls are spread over
  messages and whatever other parts lie between them. The builder returns the table
  \<^verbatim>\<open>read:0\<close> to \<open>id1\<close>, \<^verbatim>\<open>write:0\<close> to \<open>id2\<close>, \<^verbatim>\<open>read:1\<close> to \<open>id3\<close>, and nothing
  else. From any state, the chat.params hook of a Google provider whose client
  serves this transcript stores that table under the session. And from any state
  whose store yields that table, the extraction from any Gemini turn array whose
  function responses are named, in walk order, \<^verbatim>\<open>read, write, read\<close> returns three
  outputs with the identifiers \<open>id1, id2, id3\<close>, in that order.
\<close>

theorem correlator_example:
  assumes "id1 \<noteq> []" and "id2 \<noteq> []" and "id3 \<noteq> []"
    and "toLowerCase id1 = id1" and "toLowerCase id2 = id2" and "toLowerCase id3 = id3"
    and "wellFormedTranscript messages"
    and "toolCalls messages
           = [(JStr ''read'', JStr id1), (JStr ''write'', JStr id2), (JStr ''read'', JStr id3)]"
  shows "\<exists>table.
           buildPositionMapping messages = Inr table
         \<and> table = [(''read:0'', id1), (''read:1'', id3), (''write:0'', id2)]
         \<and> map_of table ''read:0'' = Some id1
         \<and> map_of table ''write:0'' = Some id2
         \<and> map_of table ''read:1'' = Some id3
         \<and> dom (map_of table) = {''read:0'', ''write:0'', ''read:1''}
         \<and> (sessionMessages client (sessionID input) = Some resp
              \<and> orElse (get resp ''data'') resp = JArr messages
              \<and> (providerOf input = JStr ''google'' \<or> providerOf input = JStr ''google-vertex'')
            \<longrightarrow> map_of (googleToolCallMapping (chatParamsHandler client state input))
                  (sessionID input) = Some table)
         \<and> (wellFormedContents data
              \<and> map (\<lambda>fr. get fr ''name'') (functionResponses data)
                  = [JStr ''read'', JStr ''write'', JStr ''read'']
              \<and> firstNonEmpty (googleToolCallMapping state') = Some table
            \<longrightarrow> (\<exists>outs. extractToolOutputs Gemini data state' = Inr outs
                   \<and> map id_str outs = [id1, id2, id3]
                   \<and> map toolName outs = [JStr ''read'', JStr ''write'', JStr ''read'']))"
proof -
  let ?table = "[(''read:0'', id1), (''read:1'', id3), (''write:0'', id2)]"
  have build: "buildPositionMapping messages = Inr ?table"
    using assms(1-6)
    by (simp add: buildPositionMapping_def collectMessages_pushCalls [OF assms(7)] assms(8)
        pushCall_def positionKey_def showNat.simps digitChar_def lowerChar_def)
  have hook: "map_of (googleToolCallMapping (chatParamsHandler client state input))
                (sessionID input) = Some ?table"
    if "sessionMessages client (sessionID input) = Some resp"
      and "orElse (get resp ''data'') resp = JArr messages"
      and "providerOf input = JStr ''google'' \<or> providerOf input = JStr ''google-vertex''"
    using that(3)
    by (simp add: chatParamsHandler_store rebuildMapping_built [OF that(1,2) build]
        update_conv')
  have outs: "\<exists>outs. extractToolOutputs Gemini data state' = Inr outs
               \<and> map id_str outs = [id1, id2, id3]
               \<and> map toolName outs = [JStr ''read'', JStr ''write'', JStr ''read'']"
    if wf: "wellFormedContents data"
      and names: "map (\<lambda>fr. get fr ''name'') (functionResponses data)
                    = [JStr ''read'', JStr ''write'', JStr ''read'']"
      and store: "firstNonEmpty (googleToolCallMapping state') = Some ?table"
  proof -
    from three_names [OF names] obtain a b c where frs: "functionResponses data = [a, b, c]"
      and a: "get a ''name'' = JStr ''read''" and b: "get b ''name'' = JStr ''write''"
      and c: "get c ''name'' = JStr ''read''"
      by blast
    have "geminiMapped ?table (Map.empty, []) data
            = mappedWalk ?table (Map.empty, []) [a, b, c]"
      by (simp add: geminiMapped_walk [OF wf] frs)
    with assms(1-6) a b c store show ?thesis
      by (simp add: recoveredId_def run_simps)
  qed
  have dom: "dom (map_of ?table) = {''read:0'', ''write:0'', ''read:1''}"
    by auto
  from build hook outs dom show ?thesis
    by (intro exI [of _ ?table]) simp
qed

theorem correlator_example_witness:
  "wellFormedTranscript (exampleTranscript ''id1'' ''id2'' ''id3'')
   \<and> toolCalls (exampleTranscript ''id1'' ''id2'' ''id3'')
       = [(JStr ''read'', JStr ''id1''), (JStr ''write'', JStr ''id2''), (JStr ''read'', JStr ''id3'')]
   \<and> buildPositionMapping (exampleTranscript ''id1'' ''id2'' ''id3'') = Inr exampleTable
   \<and> providerOf (googleInput ''ses_A'') = JStr ''google''
   \<and> map_of (googleToolCallMapping
         (chatParamsHandler (exampleClient (exampleTranscript ''id1'' ''id2'' ''id3''))
            createPluginState (googleInput ''ses_A''))) ''ses_A'' = Some exampleTable
   \<and> firstNonEmpty (googleToolCallMapping
         (chatParamsHandler (exampleClient (exampleTranscript ''id1'' ''id2'' ''id3''))
            createPluginState (googleInput ''ses_A''))) = Some exampleTable
   \<and> wellFormedContents exampleContents
   \<and> map (\<lambda>fr. get fr ''name'') (functionResponses exampleContents)
       = [JStr ''read'', JStr ''write'', JStr ''read'']
   \<and> (\<exists>outs. extractToolOutputs Gemini exampleContents
                (chatParamsHandler (exampleClient (exampleTranscript ''id1'' ''id2'' ''id3''))
                   createPluginState (googleInput ''ses_A'')) = Inr outs
         \<and> map id_str outs = [''id1'', ''id2'', ''id3''])
   \<and> wellFormedTranscript oneMessageTranscript
   \<and> toolCalls oneMessageTranscript
       = [(JStr ''read'', JStr ''id1''), (JStr ''write'', JStr ''id2''), (JStr ''read'', JStr ''id3'')]
   \<and> buildPositionMapping oneMessageTranscript = Inr exampleTable"
proof -
  let ?messages = "exampleTranscript ''id1'' ''id2'' ''id3''"
  let ?client = "exampleClient ?messages"
  let ?state = "chatParamsHandler ?client createPluginState (googleInput ''ses_A'')"
  have wf: "wellFormedTranscript ?messages" "wellFormedTranscript oneMessageTranscript"
    by (simp_all add: wellFormedTranscript_def exampleTranscript_def oneMessageTranscript_def
        toolPart_def partsOf_def partsIterable_def)
  have calls: "toolCalls ?messages
      = [(JStr ''read'', JStr ''id1''), (JStr ''write'', JStr ''id2''), (JStr ''read'', JStr ''id3'')]"
    "toolCalls oneMessageTranscript
      = [(JStr ''read'', JStr ''id1''), (JStr ''write'', JStr ''id2''), (JStr ''read'', JStr ''id3'')]"
    by (simp_all add: toolCalls_def exampleTranscript_def oneMessageTranscript_def
        toolPart_def partsOf_def isToolCall_def)
  have wfc: "wellFormedContents exampleContents"
    by (simp add: wellFormedContents_def exampleContents_def functionResponsePart_def partsOf_def)
  have names: "map (\<lambda>fr. get fr ''name'') (functionResponses exampleContents)
      = [JStr ''read'', JStr ''write'', JStr ''read'']"
    by (simp add: functionResponses_def exampleContents_def functionResponsePart_def partsOf_def)
  have served: "sessionMessages ?client ''ses_A'' = Some (JObj [(''data'', JArr ?messages)])"
    "orElse (get (JObj [(''data'', JArr ?messages)]) ''data'') (JObj [(''data'', JArr ?messages)])
       = JArr ?messages"
    "providerOf (googleInput ''ses_A'') = JStr ''google''"
    "sessionID (googleInput ''ses_A'') = ''ses_A''"
    by (simp_all add: exampleClient_def googleInput_def orElse_def providerOf_def optProp_def)
  have fresh: "\<not> sessionChanged createPluginState ''ses_A''"
    "googleToolCallMapping createPluginState = []"
    by (simp_all add: createPluginState_def sessionChanged_def)
  have low: "toLowerCase ''id1'' = ''id1''" "toLowerCase ''id2'' = ''id2''"
    "toLowerCase ''id3'' = ''id3''"
    by (simp_all add: lowerChar_def)
  have build: "buildPositionMapping ?messages = Inr exampleTable"
    using correlator_example [where ?id1.0 = "''id1''" and ?id2.0 = "''id2''"
        and ?id3.0 = "''id3''" and messages = ?messages, OF _ _ _ low wf(1) calls(1)]
    by (simp add: exampleTable_def)
  have store: "googleToolCallMapping ?state = [(''ses_A'', exampleTable)]"
    by (simp add: chatParamsHandler_store served(3,4) fresh
        rebuildMapping_built [OF served(1,2) build])
  then have first: "firstNonEmpty (googleToolCallMapping ?state) = Some exampleTable"
    by (simp add: exampleTable_def)
  have outs: "\<exists>outs. extractToolOutputs Gemini exampleContents ?state = Inr outs
                 \<and> map id_str outs = [''id1'', ''id2'', ''id3'']"
    using correlator_example [where ?id1.0 = "''id1''" and ?id2.0 = "''id2''"
        and ?id3.0 = "''id3''" and messages = ?messages and data = exampleContents
        and state' = ?state, OF _ _ _ low wf(1) calls(1)] wfc names first
    unfolding exampleTable_def by fastforce
  have one: "buildPositionMapping oneMessageTranscript = Inr exampleTable"
    using correlator_example [where ?id1.0 = "''id1''" and ?id2.0 = "''id2''"
        and ?id3.0 = "''id3''" and messages = oneMessageTranscript,
        OF _ _ _ low wf(2) calls(2)]
    by (simp add: exampleTable_def)
  have hooked: "map_of (googleToolCallMapping ?state) ''ses_A'' = Some exampleTable"
    using correlator_example [where ?id1.0 = "''id1''" and ?id2.0 = "''id2''"
        and ?id3.0 = "''id3''" and messages = ?messages and client = ?client
        and input = "googleInput ''ses_A''" and state = createPluginState
        and resp = "JObj [(''data'', JArr ?messages)]", OF _ _ _ low wf(1) calls(1)]
      served
    unfolding exampleTable_def by simp
  from wf calls build served(3) hooked first wfc names outs one show ?thesis
    by blast
qed
end
